theory Spec2Isabelle
  imports Complex_Main "HOL-Library.Word"
begin

section \<open>Conventions of the embedding\<close>

text \<open>
  The program is the Crank--Nicolson penalty pricer of \<^verbatim>\<open>Assignment 2/American penalty.cpp\<close>:
  the functions \<^verbatim>\<open>theta\<close>, \<^verbatim>\<open>thomas_solve\<close>, \<^verbatim>\<open>lagrange_interpolation\<close> and
  \<^verbatim>\<open>crank_nicolson\<close>.

  \<^item> A \<^verbatim>\<open>double\<close> is a \<^typ>\<open>real\<close>: arithmetic is exact, with no rounding, no infinity
    and no NaN. Where the C++ divides by zero it silently produces an infinity or a
    NaN, and the model holds an arbitrary real instead: the model is the program on
    the runs that divide by no zero. The theorem on the solution of a linear system
    carries the hypothesis that excludes it (non-zero pivots); the theorems on
    which entries are written, and with which expressions, do not depend on it.
    \<^verbatim>\<open>pow(x, 2)\<close> is \<open>x\<^sup>2\<close>; \<^verbatim>\<open>pow\<close> with a real exponent is \<open>powr\<close>, which agrees with
    it for a positive base (the bases are the index \<open>j \<ge> 1\<close> and the grid spacing).
  \<^item> A \<^verbatim>\<open>std::vector<double>\<close> is a \<^typ>\<open>real list\<close>, and \<^verbatim>\<open>v[i] = e\<close> is a list update.
    \<^verbatim>\<open>operator[]\<close> outside the vector is undefined behaviour in C++; the model
    returns \<open>Inl OutOfBounds\<close> in its place.
  \<^item> \<^verbatim>\<open>unsigned int\<close> is \<^typ>\<open>32 word\<close>. An \<^verbatim>\<open>int\<close> is an \<^typ>\<open>int\<close>, and every
    \<^verbatim>\<open>int\<close> expression that can leave the 32-bit range (the conversion of a
    \<^verbatim>\<open>double\<close>, the subtraction that follows it, \<open>j_max + 1\<close> and \<open>i_max - 1\<close>) is
    guarded: outside the range the C++ is undefined and the model returns
    \<open>Inl Undefined\<close>.
  \<^item> A bare \<^verbatim>\<open>throw;\<close> with no exception in flight calls \<^verbatim>\<open>std::terminate\<close>. The
    two places that do so are the fatal errors \<open>UsageError\<close> (interpolation of
    order zero) and \<open>ConvergenceFailure\<close> (penalty iteration out of budget).
  \<^item> A parameter taken by non-const reference is part of the result: the model
    returns its final contents next to the returned value.
  \<^item> Console output and timing are left out.
\<close>

datatype error =
    OutOfBounds          \<comment> \<open>\<^verbatim>\<open>operator[]\<close> outside a vector\<close>
  | UsageError           \<comment> \<open>\<^verbatim>\<open>throw;\<close> in \<^verbatim>\<open>lagrange_interpolation\<close>\<close>
  | ConvergenceFailure   \<comment> \<open>\<^verbatim>\<open>throw;\<close> in \<^verbatim>\<open>crank_nicolson\<close>\<close>
  | LengthError          \<comment> \<open>a vector constructed with a negative size\<close>
  | Undefined            \<comment> \<open>an \<^verbatim>\<open>int\<close> that cannot hold its value\<close>

section \<open>The Thomas solver\<close>

text \<open>
  \<^verbatim>\<open>thomas_solve(a, b_, c, d)\<close> takes \<^verbatim>\<open>a\<close>, \<^verbatim>\<open>b_\<close> and \<^verbatim>\<open>c\<close> by const reference and \<^verbatim>\<open>d\<close>
  by plain reference (\<^verbatim>\<open>b_\<close> is written \<open>b_in\<close> here). The forward loop runs over
  \<open>j = 1, \<dots>, n - 1\<close>; it writes the local vector \<open>b\<close> and the caller's \<open>d\<close>.
\<close>

function forward_sweep ::
  "real list \<Rightarrow> real list \<Rightarrow> real list \<Rightarrow> nat \<Rightarrow> nat \<Rightarrow> real list \<Rightarrow> real list
   \<Rightarrow> real list \<times> real list" where
  "forward_sweep a b_in c n j b d =
     (if j < n
      then forward_sweep a b_in c n (Suc j)
             (b[j := b_in ! j - c ! (j - 1) * a ! j / b ! (j - 1)])
             (d[j := d ! j - d ! (j - 1) * a ! j / b ! (j - 1)])
      else (b, d))"
  by pat_completeness auto
termination
  by (relation "measure (\<lambda>(a, b_in, c, n, j, b, d). n - j)") auto

declare forward_sweep.simps [simp del]

text \<open>
  The backward loop \<^verbatim>\<open>for (j = n - 2; j >= 0; j--)\<close>: the counter of the model is
  \<open>j + 1\<close>, so that it stops at \<open>0\<close>.
\<close>

fun back_substitution ::
  "real list \<Rightarrow> real list \<Rightarrow> real list \<Rightarrow> nat \<Rightarrow> real list \<Rightarrow> real list" where
  "back_substitution b c d 0 temp = temp"
| "back_substitution b c d (Suc j) temp =
     back_substitution b c d j (temp[j := (d ! j - c ! j * temp ! (j + 1)) / b ! j])"

text \<open>
  The state after the forward loop: the eliminated diagonal (the pivots) and the
  contents of \<open>d\<close>.
\<close>

definition eliminated ::
  "real list \<Rightarrow> real list \<Rightarrow> real list \<Rightarrow> real list \<Rightarrow> real list \<times> real list" where
  "eliminated a b_in c d =
     forward_sweep a b_in c (length a) 1 ((replicate (length a) 0)[0 := b_in ! 0]) d"

text \<open>
  With \<open>n = a.size()\<close>, the function reads or writes \<open>b[0]\<close>, \<open>b_[0]\<close>, \<open>temp[n - 1]\<close> and
  \<open>d[n - 1]\<close>, then \<open>b_[j]\<close>, \<open>c[j - 1]\<close>, \<open>a[j]\<close>, \<open>d[j]\<close> for \<open>1 \<le> j < n\<close>, and \<open>c[j]\<close> for
  \<open>j \<le> n - 2\<close>. All of these are inside their vectors exactly when \<open>n \<ge> 1\<close>, \<open>b_\<close> and \<open>d\<close>
  have at least \<open>n\<close> elements and \<open>c\<close> at least \<open>n - 1\<close>, which is the guard below. The
  result is the pair of the final contents of \<open>d\<close> and of the returned vector.
\<close>

definition thomas_solve ::
  "real list \<Rightarrow> real list \<Rightarrow> real list \<Rightarrow> real list \<Rightarrow> error + (real list \<times> real list)" where
  "thomas_solve a b_in c d =
     (let n = length a in
      if n = 0 \<or> length b_in < n \<or> length c < n - 1 \<or> length d < n then Inl OutOfBounds
      else
        let (b, d') = eliminated a b_in c d;
            temp = (replicate n 0)[n - 1 := d' ! (n - 1) / b ! (n - 1)]
        in Inr (d', back_substitution b c d' (n - 1) temp))"

section \<open>Local Lagrange interpolation\<close>

text \<open>
  \<^verbatim>\<open>int(v)\<close> truncates towards zero, and is undefined unless the truncated value is
  an \<^verbatim>\<open>int\<close>. The difference of two \<^verbatim>\<open>int\<close>s is undefined when it overflows.
\<close>

definition int_of_double :: "real \<Rightarrow> error + int" where
  "int_of_double v =
     (if - (2 ^ 31) - 1 < v \<and> v < 2 ^ 31
      then Inr (if 0 \<le> v then \<lfloor>v\<rfloor> else \<lceil>v\<rceil>)
      else Inl Undefined)"

definition int_minus :: "int \<Rightarrow> int \<Rightarrow> error + int" where
  "int_minus u v =
     (if - (2 ^ 31) \<le> u - v \<and> u - v < 2 ^ 31 then Inr (u - v) else Inl Undefined)"

text \<open>
  The two clamping lines \<^verbatim>\<open>jStar = std::max(0, jStar)\<close> and
  \<^verbatim>\<open>jStar = std::min(int(x.size() - n), jStar)\<close>. The difference \<open>x.size() - n\<close> is
  taken in \<^verbatim>\<open>size_t\<close> (\<open>n \<le> x.size()\<close> at this point) and converted to \<^verbatim>\<open>int\<close>, which
  keeps the low 32 bits.
\<close>

definition clamp_start :: "real list \<Rightarrow> 32 word \<Rightarrow> int \<Rightarrow> int" where
  "clamp_start x n jStar =
     min (sint (word_of_nat (length x - unat n) :: 32 word)) (max 0 jStar)"

text \<open>
  The computation of \<^verbatim>\<open>jStar\<close>. \<open>dx = x[1] - x[0]\<close> is read first, whatever \<open>n\<close> is.
  With \<open>dx = 0\<close> the quotient is an infinity or a NaN, which no \<^verbatim>\<open>int\<close> holds.
\<close>

definition window_start :: "real list \<Rightarrow> real \<Rightarrow> 32 word \<Rightarrow> error + int" where
  "window_start x x0 n =
     (if length x < 2 then Inl OutOfBounds
      else
        let nHalf = int (unat n div 2);
            dx = x ! 1 - x ! 0
        in if dx = 0 then Inl Undefined
           else
             case (if even (unat n)
                   then (case int_of_double ((x0 - x ! 0) / dx) of
                           Inl e \<Rightarrow> Inl e
                         | Inr q \<Rightarrow> int_minus q (nHalf - 1))
                   else (case int_of_double ((x0 - x ! 0) / dx + 0.5) of
                           Inl e \<Rightarrow> Inl e
                         | Inr q \<Rightarrow> int_minus q nHalf)) of
               Inl e \<Rightarrow> Inl e
             | Inr jStar \<Rightarrow> Inr (clamp_start x n jStar))"

text \<open>
  The two nested loops \<^verbatim>\<open>for (unsigned int i = jStar; i < jStar + n; i++)\<close>. The
  counters and the bound \<open>hi = jStar + n\<close> are \<^verbatim>\<open>unsigned int\<close>; \<open>lo\<close> is \<open>jStar\<close>
  converted. The inner loop skips \<open>j = i\<close>.
\<close>

function lagrange_inner ::
  "real list \<Rightarrow> real \<Rightarrow> 32 word \<Rightarrow> 32 word \<Rightarrow> 32 word \<Rightarrow> real \<Rightarrow> error + real" where
  "lagrange_inner x x0 i hi j int_temp =
     (if j < hi
      then (if j = i then lagrange_inner x x0 i hi (j + 1) int_temp
            else if unat j < length x \<and> unat i < length x
            then lagrange_inner x x0 i hi (j + 1)
                   (int_temp * ((x0 - x ! unat j) / (x ! unat i - x ! unat j)))
            else Inl OutOfBounds)
      else Inr int_temp)"
  by pat_completeness auto
termination
proof (relation "measure (\<lambda>(x, x0, i, hi, j, int_temp). unat hi - unat j)")
  fix hi j :: "32 word"
  assume "j < hi"
  then have lt: "unat j < unat hi" by (simp add: word_less_nat_alt)
  moreover have "unat hi < 2 ^ 32" using unsigned_less [of hi, where 'a = nat] by simp
  ultimately have "unat j + 1 < 2 ^ 32" by simp
  then have "unat (j + 1) = unat j + 1" by (simp add: unat_add_lem [THEN iffD1])
  with lt have step: "unat hi - unat (j + 1) < unat hi - unat j" by simp
  fix x :: "real list" and x0 int_temp t' :: real and i :: "32 word"
  show "((x, x0, i, hi, j + 1, int_temp), x, x0, i, hi, j, int_temp)
          \<in> measure (\<lambda>(x, x0, i, hi, j, int_temp). unat hi - unat j)"
    using step by simp
  show "((x, x0, i, hi, j + 1, t'), x, x0, i, hi, j, int_temp)
          \<in> measure (\<lambda>(x, x0, i, hi, j, int_temp). unat hi - unat j)"
    using step by simp
qed simp

function lagrange_outer ::
  "real list \<Rightarrow> real list \<Rightarrow> real \<Rightarrow> 32 word \<Rightarrow> 32 word \<Rightarrow> 32 word \<Rightarrow> real \<Rightarrow> error + real" where
  "lagrange_outer y x x0 lo hi i temp =
     (if i < hi
      then (if unat i < length y
            then (case lagrange_inner x x0 i hi lo (y ! unat i) of
                    Inl e \<Rightarrow> Inl e
                  | Inr int_temp \<Rightarrow> lagrange_outer y x x0 lo hi (i + 1) (temp + int_temp))
            else Inl OutOfBounds)
      else Inr temp)"
  by pat_completeness auto
termination
proof (relation "measure (\<lambda>(y, x, x0, lo, hi, i, temp). unat hi - unat i)")
  fix hi i :: "32 word"
  assume "i < hi"
  then have lt: "unat i < unat hi" by (simp add: word_less_nat_alt)
  moreover have "unat hi < 2 ^ 32" using unsigned_less [of hi, where 'a = nat] by simp
  ultimately have "unat i + 1 < 2 ^ 32" by simp
  then have "unat (i + 1) = unat i + 1" by (simp add: unat_add_lem [THEN iffD1])
  with lt have step: "unat hi - unat (i + 1) < unat hi - unat i" by simp
  fix y x :: "real list" and x0 temp t' :: real and lo :: "32 word"
  show "((y, x, x0, lo, hi, i + 1, t'), y, x, x0, lo, hi, i, temp)
          \<in> measure (\<lambda>(y, x, x0, lo, hi, i, temp). unat hi - unat i)"
    using step by simp
qed simp

text \<open>
  The body of \<^verbatim>\<open>lagrange_interpolation\<close> after its first line. An index \<^verbatim>\<open>y[jStar]\<close>
  with a negative \<^verbatim>\<open>jStar\<close> is far outside the vector.
\<close>

definition lagrange_direct :: "real list \<Rightarrow> real list \<Rightarrow> real \<Rightarrow> 32 word \<Rightarrow> error + real" where
  "lagrange_direct y x x0 n =
     (if n = 0 then Inl UsageError
      else
        case window_start x x0 n of
          Inl e \<Rightarrow> Inl e
        | Inr jStar \<Rightarrow>
            if n = 1
            then (if 0 \<le> jStar \<and> nat jStar < length y then Inr (y ! nat jStar)
                  else Inl OutOfBounds)
            else lagrange_outer y x x0 (word_of_int jStar) (word_of_int jStar + n)
                   (word_of_int jStar) 0)"

text \<open>
  The first line, \<^verbatim>\<open>if (x.size() < n) return lagrange_interpolation(y, x, x0, x.size())\<close>:
  the comparison is made in \<^verbatim>\<open>size_t\<close>, and the argument of the recursive call is
  \<open>x.size()\<close> converted to \<^verbatim>\<open>unsigned int\<close>.
\<close>

function lagrange_interpolation ::
  "real list \<Rightarrow> real list \<Rightarrow> real \<Rightarrow> 32 word \<Rightarrow> error + real" where
  "lagrange_interpolation y x x0 n =
     (if length x < unat n then lagrange_interpolation y x x0 (word_of_nat (length x))
      else lagrange_direct y x x0 n)"
  by pat_completeness auto
termination
  by (relation "measure (\<lambda>(y, x, x0, n). if length x < unat n then 1 else 0)")
     (simp_all add: unat_of_nat)

declare lagrange_inner.simps [simp del] lagrange_outer.simps [simp del]
  lagrange_interpolation.simps [simp del]

section \<open>The Crank--Nicolson penalty scheme\<close>

definition theta :: "real \<Rightarrow> real \<Rightarrow> real \<Rightarrow> int \<Rightarrow> real" where
  "theta mu X dt i = (1 + mu) * X * exp (mu * real_of_int i * dt)"

subsection \<open>Assembling the system of one time layer\<close>

text \<open>
  The four assignments of the loop over the interior nodes, \<open>a[j]\<close>, \<open>b[j]\<close>, \<open>c[j]\<close> and
  \<open>d[j]\<close>, as the four components of a row.
\<close>

definition interior_row ::
  "real \<Rightarrow> real \<Rightarrow> real \<Rightarrow> real \<Rightarrow> real \<Rightarrow> real \<Rightarrow> real \<Rightarrow> real \<Rightarrow> real \<Rightarrow> real \<Rightarrow>
   int \<Rightarrow> real list \<Rightarrow> nat \<Rightarrow> real \<times> real \<times> real \<times> real" where
  "interior_row r kappa mu X C alpha beta sigma dS dt i v_old j =
     (- 0.25 * sigma\<^sup>2 * real j powr (2 * beta) * dS powr (2 * (beta - 1))
        + (kappa / (4 * dS)) * (theta mu X dt i - real j * dS),
      (1 / dt) + 0.5 * sigma\<^sup>2 * real j powr (2 * beta) * dS powr (2 * (beta - 1)) + (r / 2),
      - 0.25 * sigma\<^sup>2 * real j powr (2 * beta) * dS powr (2 * (beta - 1))
        - (kappa / (4 * dS)) * (theta mu X dt i - real j * dS),
      (0.25 * sigma\<^sup>2 * real j powr (2 * beta) * dS powr (2 * (beta - 1))
         - (kappa / (4 * dS)) * (theta mu X dt i - real j * dS)) * v_old ! (j - 1)
      + ((1 / dt) - 0.5 * sigma\<^sup>2 * real j powr (2 * beta) * dS powr (2 * (beta - 1)) - (r / 2))
          * v_old ! j
      + (0.25 * sigma\<^sup>2 * real j powr (2 * beta) * dS powr (2 * (beta - 1))
         + (kappa / (4 * dS)) * (theta mu X dt i - real j * dS)) * v_old ! (j + 1)
      + C * exp (- alpha * real_of_int i * dt))"

definition write_row ::
  "nat \<Rightarrow> real \<times> real \<times> real \<times> real \<Rightarrow>
   real list \<times> real list \<times> real list \<times> real list \<Rightarrow>
   real list \<times> real list \<times> real list \<times> real list" where
  "write_row j row s =
     (case (row, s) of
        ((aj, bj, cj, dj), (a, b, c, d)) \<Rightarrow> (a[j := aj], b[j := bj], c[j := cj], d[j := dj]))"

text \<open>The loop \<^verbatim>\<open>for (int j{ 1 }; j <= j_max - 1; j++)\<close> over the four vectors.\<close>

function interior_rows ::
  "real \<Rightarrow> real \<Rightarrow> real \<Rightarrow> real \<Rightarrow> real \<Rightarrow> real \<Rightarrow> real \<Rightarrow> real \<Rightarrow> real \<Rightarrow> real \<Rightarrow>
   int \<Rightarrow> real list \<Rightarrow> int \<Rightarrow> nat \<Rightarrow>
   real list \<times> real list \<times> real list \<times> real list \<Rightarrow>
   real list \<times> real list \<times> real list \<times> real list" where
  "interior_rows r kappa mu X C alpha beta sigma dS dt i v_old j_max j s =
     (if int j \<le> j_max - 1
      then interior_rows r kappa mu X C alpha beta sigma dS dt i v_old j_max (Suc j)
             (write_row j (interior_row r kappa mu X C alpha beta sigma dS dt i v_old j) s)
      else s)"
  by pat_completeness auto
termination
  by (relation "measure (\<lambda>(r, kappa, mu, X, C, alpha, beta, sigma, dS, dt, i, v_old, j_max, j, s).
        nat j_max - j)") auto

text \<open>
  The vectors \<open>a\<close>, \<open>b\<close>, \<open>c\<close>, \<open>d\<close> of a time layer: four fresh vectors of \<open>j_max + 1\<close>
  zeros, row \<open>0\<close>, the interior rows, row \<open>j_max\<close>. The accesses are \<open>a[0]\<close> and
  \<open>a[j_max]\<close> (and the like for \<open>b\<close>, \<open>c\<close>, \<open>d\<close>), \<open>v_old[0]\<close>, \<open>v_old[j - 1]\<close> to
  \<open>v_old[j + 1]\<close> for the interior \<open>j\<close> (there are some when \<open>j_max \<ge> 2\<close>), and
  \<open>S[j_max]\<close>: this is the guard.
\<close>

definition build_system ::
  "real \<Rightarrow> real \<Rightarrow> real \<Rightarrow> real \<Rightarrow> real \<Rightarrow> real \<Rightarrow> real \<Rightarrow> real \<Rightarrow> real \<Rightarrow> real \<Rightarrow> real \<Rightarrow>
   real list \<Rightarrow> int \<Rightarrow> int \<Rightarrow> real list \<Rightarrow>
   error + (real list \<times> real list \<times> real list \<times> real list)" where
  "build_system R r kappa mu X C alpha beta sigma dS dt S j_max i v_old =
     (if j_max < 0 \<or> length v_old < (if 2 \<le> j_max then nat j_max + 1 else 1)
         \<or> length S < nat j_max + 1
      then Inl OutOfBounds
      else
        let n = nat (j_max + 1);
            a = (replicate n 0)[0 := 0];
            b = (replicate n 0)[0 := - (1 / dt) - (kappa * theta mu X dt i / dS) - (r / 2)];
            c = (replicate n 0)[0 := kappa * theta mu X dt i / dS];
            d = (replicate n 0)[0 := (- (1 / dt) + (r / 2)) * v_old ! 0
                                       - C * exp (real_of_int (- i) * dt)];
            (a, b, c, d) =
              interior_rows r kappa mu X C alpha beta sigma dS dt i v_old j_max 1 (a, b, c, d)
        in Inr (a[nat j_max := 0], b[nat j_max := 1], c[nat j_max := 0],
                d[nat j_max := R * S ! nat j_max]))"

subsection \<open>One penalty iteration\<close>

text \<open>
  The loop \<^verbatim>\<open>for (int j{ 1 }; j < j_max; j++)\<close> on the copies \<open>b_hat\<close> and \<open>d_hat\<close>; the
  new entries are computed from the base vectors \<open>b\<close> and \<open>d\<close>.
\<close>

function apply_penalty ::
  "real \<Rightarrow> real \<Rightarrow> real list \<Rightarrow> int \<Rightarrow> real list \<Rightarrow> real list \<Rightarrow> real list \<Rightarrow> nat \<Rightarrow>
   real list \<times> real list \<Rightarrow> real list \<times> real list" where
  "apply_penalty R rho S j_max b d v_new j (b_hat, d_hat) =
     (if int j < j_max
      then apply_penalty R rho S j_max b d v_new (Suc j)
             (if v_new ! j < R * S ! j
              then (b_hat[j := b ! j + rho], d_hat[j := d ! j + rho * (R * S ! j)])
              else (b_hat, d_hat))
      else (b_hat, d_hat))"
  by pat_completeness auto
termination
  by (relation "measure (\<lambda>(R, rho, S, j_max, b, d, v_new, j, s). nat j_max - j)") auto

text \<open>
  The four copies \<open>a_hat\<close>, \<open>b_hat\<close>, \<open>c_hat\<close>, \<open>d_hat\<close> after the penalty loop. The loop
  reads \<open>v_new[j]\<close>, \<open>S[j]\<close>, \<open>b[j]\<close>, \<open>d[j]\<close> and writes \<open>b_hat[j]\<close>, \<open>d_hat[j]\<close> for
  \<open>1 \<le> j < j_max\<close>.
\<close>

definition penalised_system ::
  "real \<Rightarrow> real \<Rightarrow> real list \<Rightarrow> int \<Rightarrow> real list \<Rightarrow> real list \<Rightarrow> real list \<Rightarrow> real list \<Rightarrow>
   real list \<Rightarrow> error + (real list \<times> real list \<times> real list \<times> real list)" where
  "penalised_system R rho S j_max a b c d v_new =
     (if 2 \<le> j_max \<and> (length v_new < nat j_max \<or> length S < nat j_max
                        \<or> length b < nat j_max \<or> length d < nat j_max)
      then Inl OutOfBounds
      else
        let a_hat = a; b_hat = b; c_hat = c; d_hat = d;
            (b_hat, d_hat) = apply_penalty R rho S j_max b d v_new 1 (b_hat, d_hat)
        in Inr (a_hat, b_hat, c_hat, d_hat))"

text \<open>The loop \<^verbatim>\<open>for (int j{ 0 }; j < j_max; j++) error += pow(v_new[j] - y[j], 2)\<close>.\<close>

function squared_error :: "real list \<Rightarrow> real list \<Rightarrow> int \<Rightarrow> nat \<Rightarrow> real \<Rightarrow> real" where
  "squared_error v_new y j_max j err =
     (if int j < j_max then squared_error v_new y j_max (Suc j) (err + (v_new ! j - y ! j)\<^sup>2)
      else err)"
  by pat_completeness auto
termination
  by (relation "measure (\<lambda>(v_new, y, j_max, j, err). nat j_max - j)") auto

text \<open>
  One pass of the penalty loop up to the assignment \<open>v_new = y\<close>: the value of
  \<^verbatim>\<open>error\<close> and the new candidate. The contents that \<^verbatim>\<open>thomas_solve\<close> leaves in
  \<open>d_hat\<close> are dropped with the copy at the end of the pass.
\<close>

definition penalty_iteration ::
  "real \<Rightarrow> real \<Rightarrow> real list \<Rightarrow> int \<Rightarrow> real list \<Rightarrow> real list \<Rightarrow> real list \<Rightarrow> real list \<Rightarrow>
   real list \<Rightarrow> error + (real \<times> real list)" where
  "penalty_iteration R rho S j_max a b c d v_new =
     (case penalised_system R rho S j_max a b c d v_new of
        Inl e \<Rightarrow> Inl e
      | Inr (a_hat, b_hat, c_hat, d_hat) \<Rightarrow>
          (case thomas_solve a_hat b_hat c_hat d_hat of
             Inl e \<Rightarrow> Inl e
           | Inr (d_hat', y) \<Rightarrow>
               if 0 < j_max \<and> (length v_new < nat j_max \<or> length y < nat j_max)
               then Inl OutOfBounds
               else Inr (squared_error v_new y j_max 0 0, y)))"

text \<open>
  The four copies at the end of the same pass, after the call
  \<^verbatim>\<open>thomas_solve(a_hat, b_hat, c_hat, d_hat)\<close>, which takes \<open>d_hat\<close> by plain reference.
\<close>

definition iteration_copies ::
  "real \<Rightarrow> real \<Rightarrow> real list \<Rightarrow> int \<Rightarrow> real list \<Rightarrow> real list \<Rightarrow> real list \<Rightarrow> real list \<Rightarrow>
   real list \<Rightarrow> error + (real list \<times> real list \<times> real list \<times> real list)" where
  "iteration_copies R rho S j_max a b c d v_new =
     (case penalised_system R rho S j_max a b c d v_new of
        Inl e \<Rightarrow> Inl e
      | Inr (a_hat, b_hat, c_hat, d_hat) \<Rightarrow>
          (case thomas_solve a_hat b_hat c_hat d_hat of
             Inl e \<Rightarrow> Inl e
           | Inr (d_hat', y) \<Rightarrow> Inr (a_hat, b_hat, c_hat, d_hat')))"

subsection \<open>The penalty loop and the time march\<close>

text \<open>
  The loop \<^verbatim>\<open>for (penalty_itr = 0; penalty_itr < iter_max; penalty_itr++)\<close> with its
  \<^verbatim>\<open>break\<close>, and the test \<^verbatim>\<open>if (penalty_itr >= iter_max) throw;\<close> after it. The counter
  of the model is the number \<open>iter_max - penalty_itr\<close> of passes left: at \<open>0\<close> the loop
  has ended without a \<^verbatim>\<open>break\<close>, so the test holds; after a \<^verbatim>\<open>break\<close> it does not.
\<close>

fun penalty_loop ::
  "real \<Rightarrow> real \<Rightarrow> real \<Rightarrow> real list \<Rightarrow> int \<Rightarrow> real list \<Rightarrow> real list \<Rightarrow> real list \<Rightarrow> real list \<Rightarrow>
   nat \<Rightarrow> real list \<Rightarrow> error + real list" where
  "penalty_loop R rho tol S j_max a b c d 0 v_new = Inl ConvergenceFailure"
| "penalty_loop R rho tol S j_max a b c d (Suc k) v_new =
     (case penalty_iteration R rho S j_max a b c d v_new of
        Inl e \<Rightarrow> Inl e
      | Inr (err, y) \<Rightarrow>
          if err < tol\<^sup>2 then Inr y
          else penalty_loop R rho tol S j_max a b c d k y)"

text \<open>The body of the loop over the time levels, up to \<open>v_old = v_new\<close>.\<close>

definition time_layer ::
  "real \<Rightarrow> real \<Rightarrow> real \<Rightarrow> real \<Rightarrow> real \<Rightarrow> real \<Rightarrow> real \<Rightarrow> real \<Rightarrow> real \<Rightarrow> real \<Rightarrow> real \<Rightarrow> real \<Rightarrow>
   real \<Rightarrow> int \<Rightarrow> real list \<Rightarrow> int \<Rightarrow> int \<Rightarrow> real list \<Rightarrow> real list \<Rightarrow> error + real list" where
  "time_layer R r kappa mu X C alpha beta sigma rho tol dS dt iter_max S j_max i v_old v_new =
     (case build_system R r kappa mu X C alpha beta sigma dS dt S j_max i v_old of
        Inl e \<Rightarrow> Inl e
      | Inr (a, b, c, d) \<Rightarrow> penalty_loop R rho tol S j_max a b c d (nat iter_max) v_new)"

text \<open>
  The loop \<^verbatim>\<open>for (int i{ i_max - 1 }; i >= 0; i--)\<close>: \<open>time_loop \<dots> s m\<close> is the pair
  \<open>(v_old, v_new)\<close> after the first \<open>m\<close> passes, started from \<open>s\<close>. Pass number \<open>m\<close>
  (counted from \<open>0\<close>) is the time level \<open>i = i_max - 1 - m\<close>, and the loop makes
  \<open>i_max\<close> passes (none when \<open>i_max \<le> 0\<close>).
\<close>

primrec time_loop ::
  "real \<Rightarrow> real \<Rightarrow> real \<Rightarrow> real \<Rightarrow> real \<Rightarrow> real \<Rightarrow> real \<Rightarrow> real \<Rightarrow> real \<Rightarrow> real \<Rightarrow> real \<Rightarrow> real \<Rightarrow>
   real \<Rightarrow> int \<Rightarrow> real list \<Rightarrow> int \<Rightarrow> int \<Rightarrow> real list \<times> real list \<Rightarrow> nat \<Rightarrow>
   error + (real list \<times> real list)" where
  "time_loop R r kappa mu X C alpha beta sigma rho tol dS dt iter_max S j_max i_max s 0 = Inr s"
| "time_loop R r kappa mu X C alpha beta sigma rho tol dS dt iter_max S j_max i_max s (Suc m) =
     (case time_loop R r kappa mu X C alpha beta sigma rho tol dS dt iter_max S j_max i_max s m of
        Inl e \<Rightarrow> Inl e
      | Inr (v_old, v_new) \<Rightarrow>
          (case time_layer R r kappa mu X C alpha beta sigma rho tol dS dt iter_max S j_max
                  (i_max - 1 - int m) v_old v_new of
             Inl e \<Rightarrow> Inl e
           | Inr v \<Rightarrow> Inr (v, v)))"

text \<open>The grid \<open>S[j] = j * dS\<close> and the final condition \<open>max(F, R * S[j])\<close>, \<open>0 \<le> j \<le> j_max\<close>.\<close>

definition grid :: "int \<Rightarrow> real \<Rightarrow> real list" where
  "grid j_max dS = map (\<lambda>j. real j * dS) [0..<nat (j_max + 1)]"

definition terminal_payoff :: "real \<Rightarrow> real \<Rightarrow> real list \<Rightarrow> int \<Rightarrow> real list" where
  "terminal_payoff F R S j_max = map (\<lambda>j. max F (R * S ! j)) [0..<nat (j_max + 1)]"

text \<open>
  \<^verbatim>\<open>crank_nicolson\<close>, with the parameters in the order of the source. A vector
  constructed with the negative size \<open>j_max + 1\<close> throws \<^verbatim>\<open>std::length_error\<close>.
\<close>

definition crank_nicolson ::
  "real \<Rightarrow> real \<Rightarrow> real \<Rightarrow> real \<Rightarrow> real \<Rightarrow> real \<Rightarrow> real \<Rightarrow> real \<Rightarrow> real \<Rightarrow> real \<Rightarrow> real \<Rightarrow> real \<Rightarrow>
   int \<Rightarrow> int \<Rightarrow> real \<Rightarrow> real \<Rightarrow> real \<Rightarrow> int \<Rightarrow> error + real" where
  "crank_nicolson T F R r kappa mu S0 X C alpha beta sigma i_max j_max S_max rho tol iter_max =
     (let dS = S_max / real_of_int j_max;
          dt = T / real_of_int i_max
      in if j_max = 2147483647 then Inl Undefined
         else if j_max + 1 < 0 then Inl LengthError
         else
           let S = grid j_max dS;
               v_old = terminal_payoff F R S j_max;
               v_new = terminal_payoff F R S j_max
           in if i_max = - 2147483648 then Inl Undefined
              else
                case time_loop R r kappa mu X C alpha beta sigma rho tol dS dt iter_max S j_max
                       i_max (v_old, v_new) (nat i_max) of
                  Inl e \<Rightarrow> Inl e
                | Inr (v_old, v_new) \<Rightarrow> lagrange_interpolation v_new S S0 8)"

declare interior_rows.simps [simp del] apply_penalty.simps [simp del] squared_error.simps [simp del]

section \<open>The specification's formulas\<close>

text \<open>
  The coefficient formulas as the specification writes them, for the comparison
  with the assembled rows: the drift function \<open>theta(i)\<close>, the sub-diagonal, diagonal
  and super-diagonal contributions of an interior row, and the coupon term of its
  right-hand side.
\<close>

definition spec_theta :: "real \<Rightarrow> real \<Rightarrow> real \<Rightarrow> int \<Rightarrow> real" where
  "spec_theta mu X dt i = (1 + mu) * X * exp (mu * real_of_int i * dt)"

definition spec_sub :: "real \<Rightarrow> real \<Rightarrow> real \<Rightarrow> real \<Rightarrow> real \<Rightarrow> nat \<Rightarrow> real" where
  "spec_sub sigma beta kappa dS th j =
     - 0.25 * sigma\<^sup>2 * real j powr (2 * beta) * dS powr (2 * (beta - 1))
     + (kappa / (4 * dS)) * (th - real j * dS)"

definition spec_diag :: "real \<Rightarrow> real \<Rightarrow> real \<Rightarrow> real \<Rightarrow> real \<Rightarrow> nat \<Rightarrow> real" where
  "spec_diag sigma beta r dS dt j =
     (1 / dt) + 0.5 * sigma\<^sup>2 * real j powr (2 * beta) * dS powr (2 * (beta - 1)) + r / 2"

definition spec_super :: "real \<Rightarrow> real \<Rightarrow> real \<Rightarrow> real \<Rightarrow> real \<Rightarrow> nat \<Rightarrow> real" where
  "spec_super sigma beta kappa dS th j =
     - 0.25 * sigma\<^sup>2 * real j powr (2 * beta) * dS powr (2 * (beta - 1))
     - (kappa / (4 * dS)) * (th - real j * dS)"

definition spec_coupon :: "real \<Rightarrow> real \<Rightarrow> real \<Rightarrow> int \<Rightarrow> real" where
  "spec_coupon C alpha dt i = C * exp (- alpha * real_of_int i * dt)"

text \<open>
  ``The iteration count reaches the cap without the squared error falling below
  \<open>tol\<^sup>2\<close>'': each of the first \<open>k\<close> passes from the candidate \<open>v_new\<close> is made, and none
  has a squared error below \<open>tol\<^sup>2\<close>.
\<close>

fun unconverged ::
  "real \<Rightarrow> real \<Rightarrow> real \<Rightarrow> real list \<Rightarrow> int \<Rightarrow> real list \<Rightarrow> real list \<Rightarrow> real list \<Rightarrow> real list \<Rightarrow>
   nat \<Rightarrow> real list \<Rightarrow> bool" where
  "unconverged R rho tol S j_max a b c d 0 v_new = True"
| "unconverged R rho tol S j_max a b c d (Suc k) v_new =
     (case penalty_iteration R rho S j_max a b c d v_new of
        Inl e \<Rightarrow> False
      | Inr (err, y) \<Rightarrow> \<not> err < tol\<^sup>2 \<and> unconverged R rho tol S j_max a b c d k y)"

section \<open>Properties of the Thomas solver\<close>

subsection \<open>The two sweeps, entry by entry\<close>

lemma forward_sweep_length:
  "length (fst (forward_sweep a b_in c n j b d)) = length b \<and>
   length (snd (forward_sweep a b_in c n j b d)) = length d"
  by (induction a b_in c n j b d rule: forward_sweep.induct)
     (subst (1 2) forward_sweep.simps, simp)

lemma forward_sweep_below:
  "i < j \<Longrightarrow>
     fst (forward_sweep a b_in c n j b d) ! i = b ! i \<and>
     snd (forward_sweep a b_in c n j b d) ! i = d ! i"
  by (induction a b_in c n j b d rule: forward_sweep.induct)
     (subst (1 2) forward_sweep.simps, simp)

lemma forward_sweep_step:
  assumes "j \<le> i" "i < n" "n \<le> length b" "n \<le> length d" "0 < j"
  shows "fst (forward_sweep a b_in c n j b d) ! i =
           b_in ! i - c ! (i - 1) * a ! i / fst (forward_sweep a b_in c n j b d) ! (i - 1) \<and>
         snd (forward_sweep a b_in c n j b d) ! i =
           d ! i - snd (forward_sweep a b_in c n j b d) ! (i - 1) * a ! i
                  / fst (forward_sweep a b_in c n j b d) ! (i - 1)"
  using assms
proof (induction a b_in c n j b d rule: forward_sweep.induct)
  case (1 a b_in c n j b d)
  let ?b = "b[j := b_in ! j - c ! (j - 1) * a ! j / b ! (j - 1)]"
  let ?d = "d[j := d ! j - d ! (j - 1) * a ! j / b ! (j - 1)]"
  have jn: "j < n" using "1.prems" by simp
  have unfold: "forward_sweep a b_in c n j b d = forward_sweep a b_in c n (Suc j) ?b ?d"
    using jn by (subst forward_sweep.simps) simp
  show ?case
  proof (cases "i = j")
    case True
    have "j - 1 < Suc j" "j < Suc j" by simp_all
    then have "fst (forward_sweep a b_in c n (Suc j) ?b ?d) ! (j - 1) = ?b ! (j - 1)"
      "snd (forward_sweep a b_in c n (Suc j) ?b ?d) ! (j - 1) = ?d ! (j - 1)"
      "fst (forward_sweep a b_in c n (Suc j) ?b ?d) ! j = ?b ! j"
      "snd (forward_sweep a b_in c n (Suc j) ?b ?d) ! j = ?d ! j"
      by (simp_all only: forward_sweep_below)
    moreover have "?b ! (j - 1) = b ! (j - 1)" "?d ! (j - 1) = d ! (j - 1)"
      using "1.prems" by simp_all
    moreover have "?b ! j = b_in ! j - c ! (j - 1) * a ! j / b ! (j - 1)"
      "?d ! j = d ! j - d ! (j - 1) * a ! j / b ! (j - 1)"
      using "1.prems" jn by simp_all
    ultimately show ?thesis unfolding unfold True by simp
  next
    case False
    then have "Suc j \<le> i" using "1.prems" by simp
    moreover have "?d ! i = d ! i" using False by simp
    ultimately show ?thesis
      using "1.IH" [OF jn] "1.prems" unfolding unfold by simp
  qed
qed

lemma back_substitution_length:
  "length (back_substitution b c d k temp) = length temp"
  by (induction k arbitrary: temp) simp_all

lemma back_substitution_above:
  "k \<le> i \<Longrightarrow> back_substitution b c d k temp ! i = temp ! i"
  by (induction k arbitrary: temp) simp_all

lemma back_substitution_step:
  "i < k \<Longrightarrow> k < length temp \<Longrightarrow>
     back_substitution b c d k temp ! i =
       (d ! i - c ! i * back_substitution b c d k temp ! (i + 1)) / b ! i"
proof (induction k arbitrary: temp)
  case 0
  then show ?case by simp
next
  case (Suc k)
  let ?t = "temp[k := (d ! k - c ! k * temp ! (k + 1)) / b ! k]"
  show ?case
  proof (cases "i = k")
    case True
    have "back_substitution b c d k ?t ! k = ?t ! k"
      "back_substitution b c d k ?t ! (k + 1) = ?t ! (k + 1)"
      by (simp_all add: back_substitution_above)
    then show ?thesis using Suc.prems True by simp
  next
    case False
    then have "i < k" using Suc.prems by simp
    then show ?thesis using Suc.IH [of ?t] Suc.prems by simp
  qed
qed


lemma eliminated_facts:
  assumes "length a = n" "length b_in = n" "length d = n" "0 < n"
  shows "length (fst (eliminated a b_in c d)) = n"
    and "length (snd (eliminated a b_in c d)) = n"
    and "fst (eliminated a b_in c d) ! 0 = b_in ! 0"
    and "snd (eliminated a b_in c d) ! 0 = d ! 0"
    and "\<And>i. 0 < i \<Longrightarrow> i < n \<Longrightarrow>
           fst (eliminated a b_in c d) ! i =
             b_in ! i - c ! (i - 1) * a ! i / fst (eliminated a b_in c d) ! (i - 1)"
    and "\<And>i. 0 < i \<Longrightarrow> i < n \<Longrightarrow>
           snd (eliminated a b_in c d) ! i =
             d ! i - snd (eliminated a b_in c d) ! (i - 1) * a ! i
                    / fst (eliminated a b_in c d) ! (i - 1)"
proof -
  let ?b0 = "(replicate (length a) 0)[0 := b_in ! 0]"
  show "length (fst (eliminated a b_in c d)) = n" "length (snd (eliminated a b_in c d)) = n"
    using assms by (simp_all add: eliminated_def forward_sweep_length)
  have "(0::nat) < 1" by simp
  then have "fst (forward_sweep a b_in c (length a) 1 ?b0 d) ! 0 = ?b0 ! 0"
    "snd (forward_sweep a b_in c (length a) 1 ?b0 d) ! 0 = d ! 0"
    by (simp_all only: forward_sweep_below)
  then show "fst (eliminated a b_in c d) ! 0 = b_in ! 0" "snd (eliminated a b_in c d) ! 0 = d ! 0"
    using assms by (simp_all add: eliminated_def)
  fix i :: nat
  assume i: "0 < i" "i < n"
  have "1 \<le> i" "i < length a" "length a \<le> length ?b0" "length a \<le> length d" "(0::nat) < 1"
    using i assms by simp_all
  from forward_sweep_step [OF this, where a = a and b_in = b_in and c = c]
  show "fst (eliminated a b_in c d) ! i =
          b_in ! i - c ! (i - 1) * a ! i / fst (eliminated a b_in c d) ! (i - 1)"
    "snd (eliminated a b_in c d) ! i =
          d ! i - snd (eliminated a b_in c d) ! (i - 1) * a ! i
                 / fst (eliminated a b_in c d) ! (i - 1)"
    by (simp_all add: eliminated_def)
qed

lemma row_algebra:
  fixes aj bj cm xm xj B Bm D Dm dj t :: real
  assumes "Bm \<noteq> 0"
    and "B = bj - cm * aj / Bm"
    and "D = dj - Dm * aj / Bm"
    and "Bm * xm + cm * xj = Dm"
    and "B * xj + t = D"
  shows "aj * xm + bj * xj + t = dj"
proof -
  have bj: "bj = B + cm * aj / Bm" using assms(2) by simp
  have dj: "dj = D + Dm * aj / Bm" using assms(3) by simp
  have "Dm * aj / Bm = aj * xm + cm * aj / Bm * xj"
    using assms(1) assms(4) [symmetric] by (simp add: field_simps)
  then show ?thesis
    unfolding bj dj using assms(5) by (simp add: algebra_simps)
qed


text \<open>
  Strictly diagonally dominant rows give non-zero pivots: each pivot dominates the
  super-diagonal entry of its row.
\<close>

lemma dominant_pivots:
  assumes len: "length a = n" "length b_in = n" "length c = n" "length d = n" "0 < n"
    and dom: "\<forall>j<n. (if j = 0 then 0 else \<bar>a ! j\<bar>) + (if j = n - 1 then 0 else \<bar>c ! j\<bar>) < \<bar>b_in ! j\<bar>"
  shows "j < n \<Longrightarrow> (if j = n - 1 then 0 else \<bar>c ! j\<bar>) < \<bar>fst (eliminated a b_in c d) ! j\<bar>"
proof (induction j)
  case 0
  then show ?case using dom eliminated_facts(3) [OF len(1) len(2) len(4) len(5), where c = c]
    by (auto split: if_splits)
next
  case (Suc j)
  define B where "B = fst (eliminated a b_in c d)"
  have j: "j < n" "j \<noteq> n - 1" using Suc.prems by simp_all
  have IH: "\<bar>c ! j\<bar> < \<bar>B ! j\<bar>" using Suc.IH j by (simp add: B_def)
  then have Bpos: "0 < \<bar>B ! j\<bar>" by (smt (verit) abs_ge_zero)
  have step: "B ! Suc j = b_in ! Suc j - c ! j * a ! Suc j / B ! j"
    using eliminated_facts(5) [OF len(1) len(2) len(4) len(5) _ Suc.prems, where c = c]
    by (simp add: B_def)
  define q where "q = c ! j * a ! Suc j / B ! j"
  have "\<bar>q\<bar> = \<bar>a ! Suc j\<bar> * (\<bar>c ! j\<bar> / \<bar>B ! j\<bar>)"
    by (simp add: q_def abs_mult)
  also have "\<dots> \<le> \<bar>a ! Suc j\<bar> * 1"
    using IH Bpos by (intro mult_left_mono) (simp_all add: field_simps)
  finally have q: "\<bar>q\<bar> \<le> \<bar>a ! Suc j\<bar>" by simp
  have tri: "\<bar>b_in ! Suc j\<bar> - \<bar>q\<bar> \<le> \<bar>b_in ! Suc j - q\<bar>"
    by (rule abs_triangle_ineq2)
  have dom': "\<bar>a ! Suc j\<bar> + (if Suc j = n - 1 then 0 else \<bar>c ! Suc j\<bar>) < \<bar>b_in ! Suc j\<bar>"
    using dom [rule_format, OF Suc.prems] by simp
  have "(if Suc j = n - 1 then 0 else \<bar>c ! Suc j\<bar>) < \<bar>b_in ! Suc j - q\<bar>"
    using q tri dom' by linarith
  then show ?case unfolding B_def [symmetric] step q_def .
qed

subsection \<open>The solution satisfies the system\<close>

text \<open>
  Claim C3. For a tridiagonal system of \<open>n \<ge> 1\<close> rows whose pivots after the forward
  elimination are all non-zero (as they are for diagonally dominant rows),
  \<open>thomas_solve\<close> returns a vector \<open>x\<close> of length \<open>n\<close> that satisfies every row equation
  \<open>a[j] * x[j - 1] + b[j] * x[j] + c[j] * x[j + 1] = d[j]\<close>, where row \<open>0\<close> has no
  sub-diagonal term and row \<open>n - 1\<close> no super-diagonal term. The equations are
  those of the right-hand side as it was passed, and they hold exactly, the
  arithmetic being that of the reals.
\<close>

theorem thomas_solve_satisfies_rows:
  assumes len: "length a = n" "length b_in = n" "length c = n" "length d = n" "0 < n"
    and piv: "\<forall>j<n. fst (eliminated a b_in c d) ! j \<noteq> 0"
  shows "\<exists>d' x. thomas_solve a b_in c d = Inr (d', x) \<and> length x = n \<and>
           (\<forall>j<n. (if j = 0 then 0 else a ! j * x ! (j - 1)) + b_in ! j * x ! j
                   + (if j = n - 1 then 0 else c ! j * x ! (j + 1)) = d ! j)"
proof -
  define B where "B = fst (eliminated a b_in c d)"
  define D where "D = snd (eliminated a b_in c d)"
  define temp where "temp = (replicate n 0)[n - 1 := D ! (n - 1) / B ! (n - 1)]"
  define x where "x = back_substitution B c D (n - 1) temp"
  have el: "eliminated a b_in c d = (B, D)" by (simp add: B_def D_def)
  have solve: "thomas_solve a b_in c d = Inr (D, x)"
    using len by (simp add: thomas_solve_def Let_def el x_def temp_def)
  have lx: "length x = n" by (simp add: x_def temp_def back_substitution_length)
  note ef = eliminated_facts [OF len(1) len(2) len(4) len(5), where c = c, folded B_def D_def]
  have x_last: "x ! (n - 1) = D ! (n - 1) / B ! (n - 1)"
    using len(5) by (simp add: x_def back_substitution_above temp_def)
  have x_rec: "x ! i = (D ! i - c ! i * x ! (i + 1)) / B ! i" if "i < n - 1" for i
    unfolding x_def using that len(5)
    by (intro back_substitution_step) (simp_all add: temp_def)
  have upper: "B ! i * x ! i + (if i = n - 1 then 0 else c ! i * x ! (i + 1)) = D ! i"
    if "i < n" for i
  proof (cases "i = n - 1")
    case True
    then show ?thesis using x_last piv that by (simp add: B_def)
  next
    case False
    then have "i < n - 1" using that by simp
    from x_rec [OF this] show ?thesis using False piv that by (simp add: B_def field_simps)
  qed
  have row: "(if j = 0 then 0 else a ! j * x ! (j - 1)) + b_in ! j * x ! j
               + (if j = n - 1 then 0 else c ! j * x ! (j + 1)) = d ! j" if "j < n" for j
  proof (cases "j = 0")
    case True
    then show ?thesis using upper [OF that] ef(3) ef(4) by simp
  next
    case False
    then have j: "0 < j" "j - 1 < n" "j - 1 \<noteq> n - 1" using that by simp_all
    have "B ! (j - 1) \<noteq> 0" using piv j(2) by (simp add: B_def)
    moreover note ef(5) [OF j(1) that] ef(6) [OF j(1) that]
    moreover have "B ! (j - 1) * x ! (j - 1) + c ! (j - 1) * x ! j = D ! (j - 1)"
      using upper [OF j(2)] j by simp
    moreover note upper [OF that]
    ultimately have "a ! j * x ! (j - 1) + b_in ! j * x ! j
        + (if j = n - 1 then 0 else c ! j * x ! (j + 1)) = d ! j"
      by (rule row_algebra)
    then show ?thesis using False by simp
  qed
  show ?thesis using solve lx row by blast
qed

theorem thomas_solve_satisfies_rows_witness:
  "fst (eliminated [0, 1] [2, 3] [1, 0] [3, 4]) = [2, 5 / 2] \<and>
   (\<exists>d' x. thomas_solve [0, 1] [2, 3] [1, 0] [3, 4] = Inr (d', x) \<and> length x = 2 \<and>
      0 + 2 * x ! 0 + 1 * x ! 1 = 3 \<and> 1 * x ! 0 + 3 * x ! 1 + 0 = 4)"
proof -
  have el: "eliminated [0, 1] [2, 3] [1, 0] [3, 4] = ([2, 5 / 2], [3, 5 / 2])"
    by (simp add: eliminated_def forward_sweep.simps)
  have piv: "\<forall>j<2. fst (eliminated [0, 1] [2, 3] [1, 0] [3, 4]) ! j \<noteq> 0"
    by (simp add: el less_Suc_eq numeral_2_eq_2)
  have len: "length [0, 1 :: real] = 2" "length [2, 3 :: real] = 2" "length [1, 0 :: real] = 2"
    "length [3, 4 :: real] = 2" "(0 :: nat) < 2"
    by simp_all
  from thomas_solve_satisfies_rows [OF len piv]
  obtain d' x where sol: "thomas_solve [0, 1] [2, 3] [1, 0] [3, 4] = Inr (d', x)" "length x = 2"
    and rows: "\<forall>j<2. (if j = 0 then 0 else [0, 1] ! j * x ! (j - 1)) + [2, 3] ! j * x ! j
                   + (if j = 2 - 1 then 0 else [1, 0] ! j * x ! (j + 1)) = [3, 4] ! j"
    by blast
  from rows [rule_format, of 0] rows [rule_format, of 1]
  have "0 + 2 * x ! 0 + 1 * x ! 1 = 3" "1 * x ! 0 + 3 * x ! 1 + 0 = 4" by simp_all
  with sol el show ?thesis by auto
qed

subsection \<open>The right-hand side is overwritten\<close>

lemma thomas_solve_keeps_first:
  assumes "thomas_solve a b_in c d = Inr (d', x)"
  shows "length d' = length d \<and> d' ! 0 = d ! 0"
proof -
  have d': "d' = snd (eliminated a b_in c d)"
    using assms by (auto simp: thomas_solve_def Let_def split: if_splits prod.splits)
  have "(0::nat) < 1" by simp
  then have "snd (forward_sweep a b_in c (length a) 1
      ((replicate (length a) 0)[0 := b_in ! 0]) d) ! 0 = d ! 0"
    by (simp only: forward_sweep_below)
  then show ?thesis
    by (simp add: d' eliminated_def forward_sweep_length)
qed

text \<open>
  Claim C1. The claim is that a call of \<open>thomas_solve\<close> leaves its four argument
  vectors as they were. The vectors \<open>a\<close>, \<open>b_\<close> and \<open>c\<close> are const references, and the
  diagonal is eliminated in the local copy \<open>b\<close>; but \<open>d\<close> is a plain reference and the
  forward loop assigns to \<open>d[j]\<close>. On the system \<open>2 x\<^sub>0 + x\<^sub>1 = 3\<close>, \<open>x\<^sub>0 + 3 x\<^sub>1 = 4\<close> the call
  returns the solution \<open>(1, 1)\<close> and leaves \<open>(3, 5/2)\<close> in the caller's vector that held
  the right-hand side \<open>(3, 4)\<close>.
\<close>

theorem thomas_solve_overwrites_rhs:
  "thomas_solve [0, 1] [2, 3] [1, 0] [3, 4] = Inr ([3, 5 / 2], [1, 1]) \<and>
   [3, 5 / 2] \<noteq> [3, 4 :: real]"
  by (simp add: thomas_solve_def eliminated_def forward_sweep.simps Let_def numeral_2_eq_2)

section \<open>Properties of the interpolation\<close>

subsection \<open>Which errors can occur\<close>

lemma window_start_errors:
  "window_start x x0 n = Inl e \<Longrightarrow> e = OutOfBounds \<or> e = Undefined"
  by (auto simp: window_start_def int_of_double_def int_minus_def Let_def
           split: if_splits sum.splits)

lemma lagrange_inner_errors:
  "lagrange_inner x x0 i hi j t = Inl e \<Longrightarrow> e = OutOfBounds"
proof (induction x x0 i hi j t rule: lagrange_inner.induct)
  case (1 x x0 i hi j t)
  from "1.prems" have step:
    "j < hi \<and> (if j = i then lagrange_inner x x0 i hi (j + 1) t = Inl e
       else if unat j < length x \<and> unat i < length x
       then lagrange_inner x x0 i hi (j + 1)
              (t * ((x0 - x ! unat j) / (x ! unat i - x ! unat j))) = Inl e
       else e = OutOfBounds)"
    by (subst (asm) lagrange_inner.simps) (auto split: if_splits)
  then show ?case
    using "1.IH" by (auto split: if_splits)
qed

lemma lagrange_outer_errors:
  "lagrange_outer y x x0 lo hi i t = Inl e \<Longrightarrow> e = OutOfBounds"
proof (induction y x x0 lo hi i t rule: lagrange_outer.induct)
  case (1 y x x0 lo hi i t)
  from "1.prems" have step:
    "i < hi \<and> (if unat i < length y
       then (case lagrange_inner x x0 i hi lo (y ! unat i) of
               Inl e' \<Rightarrow> e = e'
             | Inr v \<Rightarrow> lagrange_outer y x x0 lo hi (i + 1) (t + v) = Inl e)
       else e = OutOfBounds)"
    by (subst (asm) lagrange_outer.simps) (auto split: if_splits sum.splits)
  then show ?case
    using "1.IH" by (auto split: if_splits sum.splits dest: lagrange_inner_errors)
qed

lemma lagrange_direct_usage:
  "lagrange_direct y x x0 n = Inl UsageError \<longleftrightarrow> n = 0"
  by (auto simp: lagrange_direct_def split: sum.splits if_splits
           dest: window_start_errors lagrange_outer_errors)

subsection \<open>The order is clamped once\<close>

lemma unat_clamped:
  fixes n :: "32 word"
  assumes "length x < unat n"
  shows "unat (word_of_nat (length x) :: 32 word) = length x"
proof -
  have "unat n < 2 ^ 32" using unsigned_less [of n, where 'a = nat] by simp
  with assms have "length x < 2 ^ 32" by simp
  then show ?thesis by (simp add: unat_of_nat)
qed

lemma lagrange_retry:
  assumes "length x < unat n"
  shows "lagrange_interpolation y x x0 n = lagrange_direct y x x0 (word_of_nat (length x))"
proof -
  let ?m = "word_of_nat (length x) :: 32 word"
  have m: "unat ?m = length x" using assms by (rule unat_clamped)
  have "lagrange_interpolation y x x0 n = lagrange_interpolation y x x0 ?m"
    using assms by (subst lagrange_interpolation.simps) simp
  also have "\<dots> = lagrange_direct y x x0 ?m"
    by (subst lagrange_interpolation.simps) (simp add: m)
  finally show ?thesis .
qed

lemma lagrange_no_retry:
  "\<not> length x < unat n \<Longrightarrow> lagrange_interpolation y x x0 n = lagrange_direct y x x0 n"
  by (subst lagrange_interpolation.simps) simp

text \<open>
  Claim C6. When the requested order \<open>n\<close> exceeds the number of samples, the call
  is the body of the function run once at the order \<open>x.size()\<close>: the recursive call
  is made with the sample count, which the 32-bit conversion leaves as it is, and it
  takes the other branch. The call ends in the usage error exactly when the clamped
  order, the sample count, is zero.
\<close>

theorem lagrange_clamps_once:
  assumes "length x < unat n"
  shows "lagrange_interpolation y x x0 n = lagrange_direct y x x0 (word_of_nat (length x)) \<and>
         unat (word_of_nat (length x) :: 32 word) = length x \<and>
         ((lagrange_interpolation y x x0 n = Inl UsageError) = (length x = 0))"
proof -
  let ?m = "word_of_nat (length x) :: 32 word"
  have m: "unat ?m = length x" using assms by (rule unat_clamped)
  have "(?m = 0) = (length x = 0)"
    using m by (metis unat_0 unat_eq_zero)
  then show ?thesis
    using lagrange_retry [OF assms] m by (simp add: lagrange_direct_usage)
qed

theorem lagrange_clamps_once_witness:
  "length [1, 2, 3 :: real] < unat (8 :: 32 word) \<and>
   lagrange_interpolation [1, 4, 9] [1, 2, 3] (5 / 2) 8
     = lagrange_direct [1, 4, 9] [1, 2, 3] (5 / 2) 3 \<and>
   length ([] :: real list) < unat (3 :: 32 word) \<and>
   lagrange_interpolation [] [] 0 3 = Inl UsageError"
proof -
  have h1: "length [1, 2, 3 :: real] < unat (8 :: 32 word)" by simp
  have h2: "length ([] :: real list) < unat (3 :: 32 word)" by simp
  from lagrange_clamps_once [OF h1, of "[1, 4, 9]" "5 / 2"]
  have "lagrange_interpolation [1, 4, 9] [1, 2, 3] (5 / 2) 8
          = lagrange_direct [1, 4, 9] [1, 2, 3] (5 / 2) (word_of_nat (length [1, 2, 3 :: real]))"
    by (rule conjunct1)
  then have a: "lagrange_interpolation [1, 4, 9] [1, 2, 3] (5 / 2) 8
          = lagrange_direct [1, 4, 9] [1, 2, 3] (5 / 2) 3"
    by simp
  from lagrange_clamps_once [OF h2, of "[]" 0]
  have "(lagrange_interpolation [] [] 0 3 = Inl UsageError) = (length ([] :: real list) = 0)"
    by (rule conjunct2 [THEN conjunct2])
  then have b: "lagrange_interpolation [] [] 0 3 = Inl UsageError" by simp
  show ?thesis using a b h1 h2 by blast
qed

subsection \<open>A grid of one sample\<close>

text \<open>
  Claim C10, as amended. The spacing \<open>dx = x[1] - x[0]\<close> is read before the
  shortcut for \<open>n = 1\<close>, but after the test \<open>n == 0\<close>. So every call with a requested
  order \<open>n \<ge> 1\<close> on a grid of exactly one sample (whether \<open>n = 1\<close> or \<open>n\<close> is clamped
  down to \<open>1\<close>) reads \<open>x[1]\<close> outside the vector; and a call with \<open>n \<ge> 1\<close> on a
  non-empty grid whose accesses are all in bounds has a grid of at least two
  samples.
\<close>

theorem lagrange_single_sample:
  assumes "n \<noteq> 0"
  shows "(length x = 1 \<longrightarrow> lagrange_interpolation y x x0 n = Inl OutOfBounds) \<and>
         (x \<noteq> [] \<and> lagrange_interpolation y x x0 n \<noteq> Inl OutOfBounds \<longrightarrow> 2 \<le> length x)"
proof -
  have one: "lagrange_interpolation y x x0 n = Inl OutOfBounds" if len: "length x = 1"
  proof (cases "length x < unat n")
    case True
    have "(word_of_nat (length x) :: 32 word) = 1" using len by simp
    with lagrange_retry [OF True, of y x0] len show ?thesis
      by (simp add: lagrange_direct_def window_start_def)
  next
    case False
    then show ?thesis using assms len
      by (simp add: lagrange_no_retry lagrange_direct_def window_start_def)
  qed
  have "2 \<le> length x" if "x \<noteq> []" "lagrange_interpolation y x x0 n \<noteq> Inl OutOfBounds"
  proof (rule ccontr)
    assume "\<not> 2 \<le> length x"
    moreover have "length x \<noteq> 0" using that(1) by simp
    ultimately have "length x = 1" by linarith
    from one [OF this] that(2) show False by simp
  qed
  with one show ?thesis by blast
qed

theorem lagrange_single_sample_witness:
  "(3 :: 32 word) \<noteq> 0 \<and> length [2 :: real] = 1 \<and>
   lagrange_interpolation [5] [2] 2 3 = Inl OutOfBounds"
proof -
  have h: "(3 :: 32 word) \<noteq> 0" by simp
  from lagrange_single_sample [OF h, of "[2]" "[5]" 2] show ?thesis by simp
qed

text \<open>
  Claim C10 as it is written covers the call of order \<open>0\<close> as well, and there it
  fails: on a grid of one sample that call stops at \<^verbatim>\<open>throw;\<close> and never reads \<open>x[1]\<close>.
\<close>

theorem lagrange_single_sample_order_zero:
  "length [2 :: real] = 1 \<and> lagrange_interpolation [5] [2] 2 0 = Inl UsageError"
  by (simp add: lagrange_no_retry lagrange_direct_def)

text \<open>
  Claim C5. The claim is that a call whose order is \<open>1\<close> after clamping returns one
  of the values of \<open>y\<close>. On the grid of the single sample \<open>x = {2}\<close>, \<open>y = {5}\<close> the call of
  order \<open>1\<close> reads \<open>x[1]\<close>, outside the vector, before it reaches \<^verbatim>\<open>return y[jStar]\<close>.
\<close>

theorem lagrange_order_one_single_sample:
  "lagrange_interpolation [5] [2] 2 1 = Inl OutOfBounds"
  by (simp add: lagrange_no_retry lagrange_direct_def window_start_def)

subsection \<open>The window stays inside the data\<close>

lemma lagrange_inner_in_bounds:
  "unat hi \<le> length x \<Longrightarrow> unat i < length x \<Longrightarrow> \<exists>v. lagrange_inner x x0 i hi j t = Inr v"
proof (induction x x0 i hi j t rule: lagrange_inner.induct)
  case (1 x x0 i hi j t)
  show ?case
  proof (cases "j < hi")
    case True
    then have "unat j < length x"
      using "1.prems" by (simp add: word_less_nat_alt)
    then show ?thesis
      using True "1.IH" "1.prems" by (subst lagrange_inner.simps) simp
  next
    case False
    then show ?thesis by (subst lagrange_inner.simps) simp
  qed
qed

lemma lagrange_outer_in_bounds:
  "unat hi \<le> length x \<Longrightarrow> unat hi \<le> length y \<Longrightarrow>
     \<exists>v. lagrange_outer y x x0 lo hi i t = Inr v"
proof (induction y x x0 lo hi i t rule: lagrange_outer.induct)
  case (1 y x x0 lo hi i t)
  show ?case
  proof (cases "i < hi")
    case True
    then have i: "unat i < length x" "unat i < length y"
      using "1.prems" by (simp_all add: word_less_nat_alt)
    from lagrange_inner_in_bounds [OF "1.prems"(1) i(1)]
    obtain v where v: "lagrange_inner x x0 i hi lo (y ! unat i) = Inr v" by blast
    from "1.IH" [OF True i(2) v "1.prems"]
    show ?thesis using True i v by (subst lagrange_outer.simps) simp
  next
    case False
    then show ?thesis by (subst lagrange_outer.simps) simp
  qed
qed

lemma sint_size_difference:
  assumes "length x < 2 ^ 31"
  shows "sint (word_of_nat (length x - unat n) :: 32 word) = int (length x - unat n)"
proof -
  have "int (length x - unat n) < 2 ^ 31" using assms by simp
  then show ?thesis
    by (simp add: signed_of_nat signed_take_bit_int_eq_self)
qed

lemma clamp_start_range:
  assumes "unat n \<le> length x" "length x < 2 ^ 31"
  shows "0 \<le> clamp_start x n raw \<and> clamp_start x n raw \<le> int (length x) - int (unat n)"
proof -
  have "clamp_start x n raw = min (int (length x - unat n)) (max 0 raw)"
    by (simp add: clamp_start_def sint_size_difference [OF assms(2)])
  moreover have "int (unat n) \<le> int (length x)"
    using assms(1) by (rule iffD2 [OF of_nat_le_iff])
  ultimately show ?thesis by (simp del: of_nat_unat)
qed

lemma window_start_clamped:
  "window_start x x0 n = Inr jStar \<Longrightarrow> \<exists>raw. jStar = clamp_start x n raw"
  by (auto simp: window_start_def Let_def split: if_splits sum.splits)

lemma lagrange_from_start:
  assumes "1 \<le> unat n" "unat n \<le> length x" "length x \<le> length y" "length x < 2 ^ 31"
    and js: "window_start x x0 n = Inr jStar"
  shows "\<exists>v. lagrange_interpolation y x x0 n = Inr v"
proof -
  from window_start_clamped [OF js] clamp_start_range [OF assms(2) assms(4)]
  have range: "0 \<le> jStar" "jStar \<le> int (length x) - int (unat n)" by auto
  have n0: "n \<noteq> 0" using assms(1) by auto
  have direct: "lagrange_interpolation y x x0 n = lagrange_direct y x x0 n"
    using assms(2) by (simp add: lagrange_no_retry)
  have "\<exists>v. lagrange_direct y x x0 n = Inr v"
  proof (cases "n = 1")
    case True
    then show ?thesis
      using js range assms(3) by (simp add: lagrange_direct_def)
  next
    case False
    define lo :: "32 word" where "lo = word_of_int jStar"
    have le: "nat jStar + unat n \<le> length x" using range by linarith
    then have small: "nat jStar + unat n < 2 ^ 32" using assms(4) by simp
    have lo: "lo = word_of_nat (nat jStar)"
      unfolding lo_def using range(1) by (rule word_of_int_nat)
    have "unat lo = nat jStar mod 2 ^ 32"
      unfolding lo by (simp add: unat_of_nat)
    then have "unat lo = nat jStar"
      using small by simp
    then have "unat (lo + n) = nat jStar + unat n"
      using small by (simp add: unat_add_lem [THEN iffD1])
    then have "unat (lo + n) \<le> length x" "unat (lo + n) \<le> length y"
      using le assms(3) by simp_all
    from lagrange_outer_in_bounds [OF this]
    show ?thesis using js n0 False by (simp add: lagrange_direct_def lo_def)
  qed
  then show ?thesis using direct by simp
qed

text \<open>
  The start index is computed whenever the grid has two samples and the query
  point lies within \<open>2\<^sup>3\<^sup>0\<close> grid spacings of \<open>x[0]\<close>.
\<close>

lemma truncation_bound:
  fixes v :: real
  assumes "\<bar>v\<bar> < 2 ^ 30 + 1"
  shows "\<exists>q. int_of_double v = Inr q \<and> \<bar>q\<bar> \<le> 2 ^ 30"
proof -
  have "- (2 ^ 31) - 1 < v" "v < 2 ^ 31" using assms by (simp_all add: abs_less_iff)
  then have eq: "int_of_double v = Inr (if 0 \<le> v then \<lfloor>v\<rfloor> else \<lceil>v\<rceil>)"
    by (simp add: int_of_double_def)
  have "\<bar>if 0 \<le> v then \<lfloor>v\<rfloor> else \<lceil>v\<rceil>\<bar> \<le> 2 ^ 30"
  proof (cases "0 \<le> v")
    case True
    then have "v < 2 ^ 30 + 1" "0 \<le> \<lfloor>v\<rfloor>" using assms by simp_all
    then have "\<lfloor>v\<rfloor> < 2 ^ 30 + 1" by (simp add: floor_less_iff)
    with True show ?thesis by simp
  next
    case False
    then have "- (2 ^ 30) - 1 < v" "\<lceil>v\<rceil> \<le> 0" using assms by (simp_all add: ceiling_le_iff)
    then have "- 1073741825 < \<lceil>v\<rceil>" "\<lceil>v\<rceil> \<le> 0"
      by (simp_all add: less_ceiling_iff)
    then have "\<bar>\<lceil>v\<rceil>\<bar> \<le> 1073741824" by linarith
    then show ?thesis using False by simp
  qed
  with eq show ?thesis by simp
qed

lemma window_start_defined:
  assumes "2 \<le> length x" "unat n \<le> length x" "length x < 2 ^ 31"
    and "\<bar>x0 - x ! 0\<bar> < 2 ^ 30 * \<bar>x ! 1 - x ! 0\<bar>"
  shows "\<exists>jStar. window_start x x0 n = Inr jStar"
proof -
  define dx where "dx = x ! 1 - x ! 0"
  define v where "v = (x0 - x ! 0) / dx"
  have dx: "dx \<noteq> 0" using assms(4) by (auto simp: dx_def)
  then have "\<bar>v\<bar> < 2 ^ 30"
    using assms(4) by (simp add: v_def dx_def field_simps)
  then have "\<bar>v\<bar> < 2 ^ 30 + 1" "\<bar>v + 0.5\<bar> < 2 ^ 30 + 1" by (simp_all add: abs_less_iff)
  from truncation_bound [OF this(1)] truncation_bound [OF this(2)]
  obtain q1 q2 where q: "int_of_double v = Inr q1" "\<bar>q1\<bar> \<le> 2 ^ 30"
    "int_of_double (v + 0.5) = Inr q2" "\<bar>q2\<bar> \<le> 2 ^ 30" by blast
  have h: "0 \<le> int (unat n div 2)" "int (unat n div 2) \<le> 2 ^ 30"
    using assms(2,3) by simp_all
  have "\<exists>r. int_minus q1 (int (unat n div 2) - 1) = Inr r"
    "\<exists>r. int_minus q2 (int (unat n div 2)) = Inr r"
    using q(2,4) h by (simp_all add: int_minus_def abs_le_iff)
  then show ?thesis
    unfolding window_start_def Let_def dx_def [symmetric] v_def [symmetric]
    using assms(1) dx q(1,3) by auto
qed

text \<open>
  Claim C7, as amended. For a call on corresponding sequences (\<open>y\<close> as long as \<open>x\<close>)
  with \<open>1 \<le> n \<le> len(x)\<close> and \<open>len(x) < 2\<^sup>3\<^sup>1\<close>, the computed start index \<open>jStar\<close> lies in
  \<open>[0, len(x) - n]\<close> after clamping, so every index \<open>jStar\<close> to \<open>jStar + n - 1\<close> is
  within the bounds of \<open>x\<close> and of \<open>y\<close>, and the evaluation reads nothing out of bounds
  and returns a value. The two clamping lines do so for every value of the index
  that reaches them.
\<close>

theorem window_in_bounds:
  assumes "1 \<le> unat n" "unat n \<le> length x" "length y = length x" "length x < 2 ^ 31"
  shows "(\<forall>jStar. window_start x x0 n = Inr jStar \<longrightarrow>
                0 \<le> jStar \<and> jStar \<le> int (length x) - int (unat n) \<and>
                (\<forall>i. jStar \<le> i \<and> i < jStar + int (unat n) \<longrightarrow>
                      0 \<le> i \<and> nat i < length x \<and> nat i < length y) \<and>
                (\<exists>v. lagrange_interpolation y x x0 n = Inr v)) \<and>
         (\<forall>raw. 0 \<le> clamp_start x n raw \<and>
                clamp_start x n raw \<le> int (length x) - int (unat n))"
proof -
  have le: "length x \<le> length y" using assms(3) by simp
  have idx: "0 \<le> i \<and> nat i < length x \<and> nat i < length y"
    if "clamp_start x n raw \<le> i \<and> i < clamp_start x n raw + int (unat n)" for raw i
    using clamp_start_range [OF assms(2) assms(4), of raw] that assms(3) by linarith
  have "0 \<le> jStar \<and> jStar \<le> int (length x) - int (unat n) \<and>
        (\<forall>i. jStar \<le> i \<and> i < jStar + int (unat n) \<longrightarrow>
              0 \<le> i \<and> nat i < length x \<and> nat i < length y) \<and>
        (\<exists>v. lagrange_interpolation y x x0 n = Inr v)"
    if js: "window_start x x0 n = Inr jStar" for jStar
  proof -
    from window_start_clamped [OF js] obtain raw where raw: "jStar = clamp_start x n raw"
      by blast
    show ?thesis
      unfolding raw
      using clamp_start_range [OF assms(2) assms(4), of raw] idx [of raw]
        lagrange_from_start [OF assms(1) assms(2) le assms(4) js]
      by blast
  qed
  then show ?thesis
    using clamp_start_range [OF assms(2) assms(4)] by blast
qed

theorem window_in_bounds_witness:
  "1 \<le> unat (2 :: 32 word) \<and> unat (2 :: 32 word) \<le> length [1, 2, 3 :: real] \<and>
   length [1, 4, 9 :: real] = length [1, 2, 3 :: real] \<and>
   window_start [1, 2, 3] (5 / 2) 2 = Inr 1 \<and>
   (0 :: int) \<le> 1 \<and> (1 :: int) \<le> int (length [1, 2, 3 :: real]) - int (unat (2 :: 32 word)) \<and>
   (\<exists>v. lagrange_interpolation [1, 4, 9] [1, 2, 3] (5 / 2) 2 = Inr v)"
proof -
  have h: "1 \<le> unat (2 :: 32 word)" "unat (2 :: 32 word) \<le> length [1, 2, 3 :: real]"
    "length [1, 4, 9 :: real] = length [1, 2, 3 :: real]" "length [1, 2, 3 :: real] < 2 ^ 31"
    by simp_all
  have ws: "window_start [1, 2, 3] (5 / 2) 2 = Inr 1"
    by (simp add: window_start_def clamp_start_def int_of_double_def int_minus_def Let_def)
  from window_in_bounds [OF h, of "5 / 2"] ws
  have "(0 :: int) \<le> 1 \<and>
      (1 :: int) \<le> int (length [1, 2, 3 :: real]) - int (unat (2 :: 32 word)) \<and>
      (\<exists>v. lagrange_interpolation [1, 4, 9] [1, 2, 3] (5 / 2) 2 = Inr v)"
    by blast
  then show ?thesis using h ws by blast
qed

text \<open>
  Claim C7 as it is written has no bound on the sample count, and fails on a grid
  of \<open>2\<^sup>3\<^sup>1 + 1\<close> points: \<open>x = y = (0, 1, 2, \<dots>, 2\<^sup>3\<^sup>1)\<close>, \<open>x0 = 0\<close>, \<open>n = 1\<close>. The sequences
  correspond and \<open>1 \<le> n \<le> len(x)\<close>. The raw index is \<open>0\<close>, and
  \<^verbatim>\<open>std::min(int(x.size() - n), jStar)\<close> takes the minimum with \<open>int(2\<^sup>3\<^sup>1) = - 2\<^sup>3\<^sup>1\<close>: the
  start index after clamping is \<open>- 2\<^sup>3\<^sup>1\<close>, outside \<open>[0, len(x) - n]\<close>, and \<open>y[jStar]\<close> is
  read out of bounds.
\<close>

theorem window_start_wraps_on_large_grid:
  "1 \<le> unat (1 :: 32 word) \<and> unat (1 :: 32 word) \<le> length (map real [0..<2147483649]) \<and>
   window_start (map real [0..<2147483649]) 0 1 = Inr (- 2147483648) \<and>
   lagrange_interpolation (map real [0..<2147483649]) (map real [0..<2147483649]) 0 1
     = Inl OutOfBounds"
proof -
  have ws: "window_start (map real [0..<2147483649]) 0 1 = Inr (- 2147483648)"
    by (simp add: window_start_def clamp_start_def int_of_double_def int_minus_def Let_def)
  then show ?thesis
    by (simp add: lagrange_no_retry lagrange_direct_def)
qed

subsection \<open>Order one on a grid of at least two samples\<close>

text \<open>
  On a grid of at least two samples, with a value for every grid point and a query
  point within \<open>2\<^sup>3\<^sup>0\<close> spacings of \<open>x[0]\<close>, the call of order \<open>1\<close> returns the value of
  \<open>y\<close> at the clamped start index.
\<close>

lemma lagrange_order_one:
  assumes "2 \<le> length x" "length x \<le> length y" "length x < 2 ^ 31"
    and "\<bar>x0 - x ! 0\<bar> < 2 ^ 30 * \<bar>x ! 1 - x ! 0\<bar>"
  shows "\<exists>jStar. window_start x x0 1 = Inr jStar \<and> 0 \<le> jStar \<and> nat jStar < length x \<and>
           lagrange_interpolation y x x0 1 = Inr (y ! nat jStar) \<and> y ! nat jStar \<in> set y"
proof -
  have n: "unat (1 :: 32 word) \<le> length x" using assms(1) by simp
  from window_start_defined [OF assms(1) n assms(3) assms(4)]
  obtain jStar where js: "window_start x x0 1 = Inr jStar" by blast
  from window_start_clamped [OF js] clamp_start_range [OF n assms(3)]
  have "0 \<le> jStar" "jStar \<le> int (length x) - 1" by auto
  then have range: "0 \<le> jStar" "nat jStar < length x" using assms(1) by linarith+
  then have "nat jStar < length y" using assms(2) by simp
  moreover have "lagrange_interpolation y x x0 1 = lagrange_direct y x x0 1"
    using assms(1) by (intro lagrange_no_retry) auto
  ultimately show ?thesis
    using js range by (simp add: lagrange_direct_def)
qed
section \<open>Properties of the time layer\<close>

subsection \<open>The assembled rows\<close>

lemma write_row_simps:
  "write_row j (aj, bj, cj, dj) (a, b, c, d) = (a[j := aj], b[j := bj], c[j := cj], d[j := dj])"
  by (simp add: write_row_def)

lemma interior_rows_length:
  "interior_rows r kappa mu X C alpha beta sigma dS dt i v_old j_max j (a, b, c, d) = (a', b', c', d')
   \<Longrightarrow> length a' = length a \<and> length b' = length b \<and> length c' = length c \<and> length d' = length d"
proof (induction r kappa mu X C alpha beta sigma dS dt i v_old j_max j "(a, b, c, d)"
       arbitrary: a b c d rule: interior_rows.induct)
  case (1 r kappa mu X C alpha beta sigma dS dt i v_old j_max j)
  show ?case
  proof (cases "int j \<le> j_max - 1")
    case True
    obtain aj bj cj dj where row:
      "interior_row r kappa mu X C alpha beta sigma dS dt i v_old j = (aj, bj, cj, dj)"
      by (cases "interior_row r kappa mu X C alpha beta sigma dS dt i v_old j") auto
    have "interior_rows r kappa mu X C alpha beta sigma dS dt i v_old j_max (Suc j)
            (a[j := aj], b[j := bj], c[j := cj], d[j := dj]) = (a', b', c', d')"
      using "1.prems" True row by (subst (asm) interior_rows.simps) (simp add: write_row_simps)
    with "1.hyps" [OF True, of "a[j := aj]" "b[j := bj]" "c[j := cj]" "d[j := dj]"]
    show ?thesis by (simp add: row write_row_simps)
  next
    case False
    then show ?thesis using "1.prems" by (subst (asm) interior_rows.simps) simp
  qed
qed

lemma interior_rows_frame:
  "interior_rows r kappa mu X C alpha beta sigma dS dt i v_old j_max j (a, b, c, d) = (a', b', c', d')
   \<Longrightarrow> k < j \<or> j_max \<le> int k
   \<Longrightarrow> a' ! k = a ! k \<and> b' ! k = b ! k \<and> c' ! k = c ! k \<and> d' ! k = d ! k"
proof (induction r kappa mu X C alpha beta sigma dS dt i v_old j_max j "(a, b, c, d)"
       arbitrary: a b c d rule: interior_rows.induct)
  case (1 r kappa mu X C alpha beta sigma dS dt i v_old j_max j)
  show ?case
  proof (cases "int j \<le> j_max - 1")
    case True
    obtain aj bj cj dj where row:
      "interior_row r kappa mu X C alpha beta sigma dS dt i v_old j = (aj, bj, cj, dj)"
      by (cases "interior_row r kappa mu X C alpha beta sigma dS dt i v_old j") auto
    have "interior_rows r kappa mu X C alpha beta sigma dS dt i v_old j_max (Suc j)
            (a[j := aj], b[j := bj], c[j := cj], d[j := dj]) = (a', b', c', d')"
      using "1.prems"(1) True row by (subst (asm) interior_rows.simps) (simp add: write_row_simps)
    moreover have "k < Suc j \<or> j_max \<le> int k" using "1.prems"(2) by auto
    ultimately have "a' ! k = a[j := aj] ! k \<and> b' ! k = b[j := bj] ! k \<and>
        c' ! k = c[j := cj] ! k \<and> d' ! k = d[j := dj] ! k"
      using "1.hyps" [OF True, of "a[j := aj]" "b[j := bj]" "c[j := cj]" "d[j := dj]"]
      by (simp add: row write_row_simps)
    moreover have "k \<noteq> j" using "1.prems"(2) True by auto
    ultimately show ?thesis by simp
  next
    case False
    then show ?thesis using "1.prems"(1) by (subst (asm) interior_rows.simps) simp
  qed
qed

lemma interior_rows_written:
  "interior_rows r kappa mu X C alpha beta sigma dS dt i v_old j_max j (a, b, c, d) = (a', b', c', d')
   \<Longrightarrow> j \<le> k \<Longrightarrow> int k \<le> j_max - 1
   \<Longrightarrow> k < length a \<Longrightarrow> k < length b \<Longrightarrow> k < length c \<Longrightarrow> k < length d
   \<Longrightarrow> (a' ! k, b' ! k, c' ! k, d' ! k) =
         interior_row r kappa mu X C alpha beta sigma dS dt i v_old k"
proof (induction r kappa mu X C alpha beta sigma dS dt i v_old j_max j "(a, b, c, d)"
       arbitrary: a b c d rule: interior_rows.induct)
  case (1 r kappa mu X C alpha beta sigma dS dt i v_old j_max j)
  have True: "int j \<le> j_max - 1" using "1.prems"(2,3) by simp
  obtain aj bj cj dj where row:
    "interior_row r kappa mu X C alpha beta sigma dS dt i v_old j = (aj, bj, cj, dj)"
    by (cases "interior_row r kappa mu X C alpha beta sigma dS dt i v_old j") auto
  have rec: "interior_rows r kappa mu X C alpha beta sigma dS dt i v_old j_max (Suc j)
          (a[j := aj], b[j := bj], c[j := cj], d[j := dj]) = (a', b', c', d')"
    using "1.prems"(1) True row by (subst (asm) interior_rows.simps) (simp add: write_row_simps)
  show ?case
  proof (cases "k = j")
    case True
    have "k < Suc j" using True by simp
    then have "a' ! k = a[j := aj] ! k \<and> b' ! k = b[j := bj] ! k \<and>
        c' ! k = c[j := cj] ! k \<and> d' ! k = d[j := dj] ! k"
      using interior_rows_frame [OF rec, of k] by simp
    then show ?thesis using True row "1.prems" by simp
  next
    case False
    then have "Suc j \<le> k" using "1.prems"(2) by simp
    with "1.hyps" [OF True, of "a[j := aj]" "b[j := bj]" "c[j := cj]" "d[j := dj]"] rec "1.prems"
    show ?thesis by (simp add: row write_row_simps)
  qed
qed

lemma build_system_rows:
  assumes "0 \<le> j_max" "length v_old = nat j_max + 1" "length S = nat j_max + 1"
  shows "\<exists>a b c d.
           build_system R r kappa mu X C alpha beta sigma dS dt S j_max i v_old = Inr (a, b, c, d) \<and>
           length a = nat j_max + 1 \<and> length b = nat j_max + 1 \<and>
           length c = nat j_max + 1 \<and> length d = nat j_max + 1 \<and>
           (\<forall>j. 1 \<le> j \<and> int j \<le> j_max - 1 \<longrightarrow>
                (a ! j, b ! j, c ! j, d ! j) =
                  interior_row r kappa mu X C alpha beta sigma dS dt i v_old j) \<and>
           (a ! nat j_max, b ! nat j_max, c ! nat j_max, d ! nat j_max) =
             (0, 1, 0, R * S ! nat j_max)"
proof -
  define n where "n = nat (j_max + 1)"
  define a0 where "a0 = (replicate n (0::real))[0 := 0]"
  define b0 where "b0 = (replicate n (0::real))[0 := - (1 / dt) - (kappa * theta mu X dt i / dS) - (r / 2)]"
  define c0 where "c0 = (replicate n (0::real))[0 := kappa * theta mu X dt i / dS]"
  define d0 where "d0 = (replicate n (0::real))[0 := (- (1 / dt) + (r / 2)) * v_old ! 0
                                       - C * exp (real_of_int (- i) * dt)]"
  obtain a1 b1 c1 d1 where rows:
    "interior_rows r kappa mu X C alpha beta sigma dS dt i v_old j_max 1 (a0, b0, c0, d0)
       = (a1, b1, c1, d1)"
    by (metis prod_cases4)
  have n: "n = nat j_max + 1" using assms(1) by (simp add: n_def nat_add_distrib)
  have len0: "length a0 = n" "length b0 = n" "length c0 = n" "length d0 = n"
    by (simp_all add: a0_def b0_def c0_def d0_def)
  from interior_rows_length [OF rows]
  have len1: "length a1 = n" "length b1 = n" "length c1 = n" "length d1 = n"
    using len0 by simp_all
  have eq: "build_system R r kappa mu X C alpha beta sigma dS dt S j_max i v_old =
      Inr (a1[nat j_max := 0], b1[nat j_max := 1], c1[nat j_max := 0],
           d1[nat j_max := R * S ! nat j_max])"
    unfolding build_system_def Let_def n_def [symmetric] a0_def [symmetric]
      b0_def [symmetric] c0_def [symmetric] d0_def [symmetric]
    using assms rows by simp
  have interior: "(a1[nat j_max := 0] ! j, b1[nat j_max := 1] ! j, c1[nat j_max := 0] ! j,
                   d1[nat j_max := R * S ! nat j_max] ! j) =
                  interior_row r kappa mu X C alpha beta sigma dS dt i v_old j"
    if "1 \<le> j \<and> int j \<le> j_max - 1" for j
  proof -
    have "j < n" "j \<noteq> nat j_max" using that n by auto
    then show ?thesis
      using interior_rows_written [OF rows, of j] that len0 by simp
  qed
  have "nat j_max < n" using n by simp
  then have top: "(a1[nat j_max := 0] ! nat j_max, b1[nat j_max := 1] ! nat j_max,
      c1[nat j_max := 0] ! nat j_max, d1[nat j_max := R * S ! nat j_max] ! nat j_max) =
      (0, 1, 0, R * S ! nat j_max)"
    using len1 by simp
  show ?thesis
    using eq interior top len1 n by auto
qed

text \<open>
  Claim C4. For every time level \<open>i\<close> and every interior index \<open>1 \<le> j \<le> j_max - 1\<close>,
  the row \<open>j\<close> of the assembled system holds the coefficients of the specification:
  the sub-diagonal, diagonal and super-diagonal formulas, with
  \<open>theta(i) = (1 + mu) * X * exp(mu * i * dt)\<close>, and a right-hand side that is the
  mirrored coefficients applied to the three neighbouring values of the later
  level plus the coupon term \<open>C * exp(- alpha * i * dt)\<close>.
\<close>

theorem interior_coefficients:
  assumes "length v_old = nat j_max + 1" "length S = nat j_max + 1"
    and "1 \<le> j" "int j \<le> j_max - 1"
  shows "\<exists>a b c d.
           build_system R r kappa mu X C alpha beta sigma dS dt S j_max i v_old = Inr (a, b, c, d) \<and>
           theta mu X dt i = spec_theta mu X dt i \<and>
           a ! j = spec_sub sigma beta kappa dS (spec_theta mu X dt i) j \<and>
           b ! j = spec_diag sigma beta r dS dt j \<and>
           c ! j = spec_super sigma beta kappa dS (spec_theta mu X dt i) j \<and>
           d ! j = - spec_sub sigma beta kappa dS (spec_theta mu X dt i) j * v_old ! (j - 1)
                   + (2 / dt - spec_diag sigma beta r dS dt j) * v_old ! j
                   - spec_super sigma beta kappa dS (spec_theta mu X dt i) j * v_old ! (j + 1)
                   + spec_coupon C alpha dt i"
proof -
  have "0 \<le> j_max" using assms(3,4) by simp
  from build_system_rows [OF this assms(1,2), of R r kappa mu X C alpha beta sigma dS dt i]
  obtain a b c d where
    sys: "build_system R r kappa mu X C alpha beta sigma dS dt S j_max i v_old = Inr (a, b, c, d)"
    and row: "(a ! j, b ! j, c ! j, d ! j) =
                interior_row r kappa mu X C alpha beta sigma dS dt i v_old j"
    using assms(3,4) by blast
  have th: "theta mu X dt i = spec_theta mu X dt i"
    by (simp add: theta_def spec_theta_def)
  from row have
    "a ! j = spec_sub sigma beta kappa dS (spec_theta mu X dt i) j"
    "b ! j = spec_diag sigma beta r dS dt j"
    "c ! j = spec_super sigma beta kappa dS (spec_theta mu X dt i) j"
    by (simp_all add: interior_row_def spec_sub_def spec_diag_def spec_super_def th)
  moreover from row have
    "d ! j = - spec_sub sigma beta kappa dS (spec_theta mu X dt i) j * v_old ! (j - 1)
             + (2 / dt - spec_diag sigma beta r dS dt j) * v_old ! j
             - spec_super sigma beta kappa dS (spec_theta mu X dt i) j * v_old ! (j + 1)
             + spec_coupon C alpha dt i"
    by (simp add: interior_row_def spec_sub_def spec_diag_def spec_super_def spec_coupon_def th
          algebra_simps)
  ultimately show ?thesis using sys th by blast
qed

theorem interior_coefficients_witness:
  "length [2, 2, 2 :: real] = nat 2 + 1 \<and> length [0, 1, 2 :: real] = nat 2 + 1 \<and>
   (1 :: nat) \<le> 1 \<and> int 1 \<le> 2 - 1 \<and>
   (\<exists>a b c d. build_system 1 0 0 0 1 0 0 1 1 1 1 [0, 1, 2] 2 0 [2, 2, 2] = Inr (a, b, c, d) \<and>
      a ! 1 = - 1 / 4 \<and> b ! 1 = 3 / 2 \<and> c ! 1 = - 1 / 4 \<and> d ! 1 = 2)"
proof -
  have h: "length [2, 2, 2 :: real] = nat 2 + 1" "length [0, 1, 2 :: real] = nat 2 + 1"
    "(1 :: nat) \<le> 1" "int 1 \<le> 2 - 1"
    by simp_all
  from interior_coefficients [OF h, of 1 0 0 0 1 0 0 1 1 1 1 0]
  obtain a b c d where
    "build_system 1 0 0 0 1 0 0 1 1 1 1 [0, 1, 2] 2 0 [2, 2, 2] = Inr (a, b, c, d)"
    "a ! 1 = spec_sub 1 1 0 1 (spec_theta 0 1 1 0) 1"
    "b ! 1 = spec_diag 1 1 0 1 1 1"
    "c ! 1 = spec_super 1 1 0 1 (spec_theta 0 1 1 0) 1"
    "d ! 1 = - spec_sub 1 1 0 1 (spec_theta 0 1 1 0) 1 * [2, 2, 2] ! (1 - 1)
             + (2 / 1 - spec_diag 1 1 0 1 1 1) * [2, 2, 2] ! 1
             - spec_super 1 1 0 1 (spec_theta 0 1 1 0) 1 * [2, 2, 2] ! (1 + 1)
             + spec_coupon 0 0 1 0"
    by blast
  then have "build_system 1 0 0 0 1 0 0 1 1 1 1 [0, 1, 2] 2 0 [2, 2, 2] = Inr (a, b, c, d) \<and>
      a ! 1 = - 1 / 4 \<and> b ! 1 = 3 / 2 \<and> c ! 1 = - 1 / 4 \<and> d ! 1 = 2"
    by (simp add: spec_sub_def spec_diag_def spec_super_def spec_theta_def spec_coupon_def)
  then show ?thesis using h by blast
qed

subsection \<open>The penalty step\<close>

lemma apply_penalty_length:
  "apply_penalty R rho S j_max b d v_new j (b_hat, d_hat) = (b', d')
   \<Longrightarrow> length b' = length b_hat \<and> length d' = length d_hat"
proof (induction R rho S j_max b d v_new j "(b_hat, d_hat)" arbitrary: b_hat d_hat
       rule: apply_penalty.induct)
  case (1 R rho S j_max b d v_new j b_hat d_hat)
  show ?case
  proof (cases "int j < j_max")
    case True
    show ?thesis
    proof (cases "v_new ! j < R * S ! j")
      case viol: True
      have "apply_penalty R rho S j_max b d v_new (Suc j)
              (b_hat[j := b ! j + rho], d_hat[j := d ! j + rho * (R * S ! j)]) = (b', d')"
        using "1.prems" True viol by (subst (asm) apply_penalty.simps) simp
      with "1.hyps" [OF True, of "b_hat[j := b ! j + rho]" "d_hat[j := d ! j + rho * (R * S ! j)]"]
      show ?thesis using viol by simp
    next
      case ok: False
      have "apply_penalty R rho S j_max b d v_new (Suc j) (b_hat, d_hat) = (b', d')"
        using "1.prems" True ok by (subst (asm) apply_penalty.simps) simp
      with "1.hyps" [OF True, of b_hat d_hat] show ?thesis using ok by simp
    qed
  next
    case False
    then show ?thesis using "1.prems" by (subst (asm) apply_penalty.simps) simp
  qed
qed

lemma apply_penalty_entries:
  "apply_penalty R rho S j_max b d v_new j (b_hat, d_hat) = (b', d')
   \<Longrightarrow> (k < length b_hat \<longrightarrow>
          b' ! k = (if j \<le> k \<and> int k < j_max \<and> v_new ! k < R * S ! k then b ! k + rho
                    else b_hat ! k)) \<and>
       (k < length d_hat \<longrightarrow>
          d' ! k = (if j \<le> k \<and> int k < j_max \<and> v_new ! k < R * S ! k
                    then d ! k + rho * (R * S ! k) else d_hat ! k))"
proof (induction R rho S j_max b d v_new j "(b_hat, d_hat)" arbitrary: b_hat d_hat
       rule: apply_penalty.induct)
  case (1 R rho S j_max b d v_new j b_hat d_hat)
  show ?case
  proof (cases "int j < j_max")
    case True
    show ?thesis
    proof (cases "v_new ! j < R * S ! j")
      case viol: True
      have "apply_penalty R rho S j_max b d v_new (Suc j)
              (b_hat[j := b ! j + rho], d_hat[j := d ! j + rho * (R * S ! j)]) = (b', d')"
        using "1.prems"(1) True viol by (subst (asm) apply_penalty.simps) simp
      with "1.hyps" [OF True, of "b_hat[j := b ! j + rho]" "d_hat[j := d ! j + rho * (R * S ! j)]"]
      have "(k < length b_hat \<longrightarrow>
              b' ! k = (if Suc j \<le> k \<and> int k < j_max \<and> v_new ! k < R * S ! k then b ! k + rho
                        else b_hat[j := b ! j + rho] ! k)) \<and>
            (k < length d_hat \<longrightarrow>
              d' ! k = (if Suc j \<le> k \<and> int k < j_max \<and> v_new ! k < R * S ! k
                        then d ! k + rho * (R * S ! k)
                        else d_hat[j := d ! j + rho * (R * S ! j)] ! k))"
        using viol by simp
      then show ?thesis using viol True
        by (cases "k = j") (auto simp: Suc_le_eq)
    next
      case ok: False
      have "apply_penalty R rho S j_max b d v_new (Suc j) (b_hat, d_hat) = (b', d')"
        using "1.prems"(1) True ok by (subst (asm) apply_penalty.simps) simp
      with "1.hyps" [OF True, of b_hat d_hat]
      have "(k < length b_hat \<longrightarrow>
              b' ! k = (if Suc j \<le> k \<and> int k < j_max \<and> v_new ! k < R * S ! k then b ! k + rho
                        else b_hat ! k)) \<and>
            (k < length d_hat \<longrightarrow>
              d' ! k = (if Suc j \<le> k \<and> int k < j_max \<and> v_new ! k < R * S ! k
                        then d ! k + rho * (R * S ! k) else d_hat ! k))"
        using ok by simp
      then show ?thesis using ok by (cases "k = j") (auto simp: Suc_le_eq)
    qed
  next
    case False
    then have "(b', d') = (b_hat, d_hat)"
      using "1.prems"(1) by (subst (asm) apply_penalty.simps) simp
    moreover have "\<not> (j \<le> k \<and> int k < j_max)" using False by auto
    ultimately show ?thesis by auto
  qed
qed

text \<open>
  The copies as they are handed to the solver: at an interior index whose candidate
  value is strictly below \<open>R * S[j]\<close> the diagonal entry is \<open>b[j] + rho\<close> and the
  right-hand side entry \<open>d[j] + rho * R * S[j]\<close>; every other entry of the two, the
  boundary rows among them, and the whole sub-diagonal and super-diagonal are those
  of the base system.
\<close>

lemma penalty_step_frame:
  assumes "nat j_max \<le> length b" "nat j_max \<le> length d"
    and "nat j_max \<le> length v_new" "nat j_max \<le> length S"
  shows "\<exists>b_hat d_hat.
           penalised_system R rho S j_max a b c d v_new = Inr (a, b_hat, c, d_hat) \<and>
           length b_hat = length b \<and> length d_hat = length d \<and>
           (\<forall>j. j < length b \<longrightarrow>
                b_hat ! j = (if 1 \<le> j \<and> int j \<le> j_max - 1 \<and> v_new ! j < R * S ! j
                             then b ! j + rho else b ! j)) \<and>
           (\<forall>j. j < length d \<longrightarrow>
                d_hat ! j = (if 1 \<le> j \<and> int j \<le> j_max - 1 \<and> v_new ! j < R * S ! j
                             then d ! j + rho * (R * S ! j) else d ! j))"
proof -
  obtain b_hat d_hat where pen: "apply_penalty R rho S j_max b d v_new 1 (b, d) = (b_hat, d_hat)"
    by (cases "apply_penalty R rho S j_max b d v_new 1 (b, d)") auto
  have sys: "penalised_system R rho S j_max a b c d v_new = Inr (a, b_hat, c, d_hat)"
    unfolding penalised_system_def Let_def using assms pen by simp
  have len: "length b_hat = length b" "length d_hat = length d"
    using apply_penalty_length [OF pen] by simp_all
  have iff: "(1 \<le> j \<and> int j < j_max) = (1 \<le> j \<and> int j \<le> j_max - 1)" for j :: nat
    by auto
  have "b_hat ! j = (if 1 \<le> j \<and> int j \<le> j_max - 1 \<and> v_new ! j < R * S ! j
                      then b ! j + rho else b ! j)" if "j < length b" for j
    using apply_penalty_entries [OF pen, of j] that iff [of j] by auto
  moreover have "d_hat ! j = (if 1 \<le> j \<and> int j \<le> j_max - 1 \<and> v_new ! j < R * S ! j
                      then d ! j + rho * (R * S ! j) else d ! j)" if "j < length d" for j
    using apply_penalty_entries [OF pen, of j] that iff [of j] by auto
  ultimately show ?thesis using sys len by blast
qed

lemma penalty_step_frame_example:
  "nat 2 \<le> length [- 1, 3 / 2, 1 :: real] \<and> nat 2 \<le> length [- 2, 2, 2 :: real] \<and>
   nat 2 \<le> length [2, 1 / 2, 2 :: real] \<and> nat 2 \<le> length [0, 1, 2 :: real] \<and>
   (\<exists>b_hat d_hat.
      penalised_system 1 10 [0, 1, 2] 2 [0, - 1 / 4, 0] [- 1, 3 / 2, 1] [0, - 1 / 4, 0]
        [- 2, 2, 2] [2, 1 / 2, 2]
        = Inr ([0, - 1 / 4, 0], b_hat, [0, - 1 / 4, 0], d_hat) \<and>
      b_hat ! 0 = - 1 \<and> b_hat ! 1 = 23 / 2 \<and> b_hat ! 2 = 1 \<and>
      d_hat ! 0 = - 2 \<and> d_hat ! 1 = 12 \<and> d_hat ! 2 = 2)"
proof -
  have h: "nat 2 \<le> length [- 1, 3 / 2, 1 :: real]" "nat 2 \<le> length [- 2, 2, 2 :: real]"
    "nat 2 \<le> length [2, 1 / 2, 2 :: real]" "nat 2 \<le> length [0, 1, 2 :: real]"
    by simp_all
  from penalty_step_frame [OF h, of 1 10 "[0, - 1 / 4, 0]" "[0, - 1 / 4, 0]"]
  obtain b_hat d_hat where sys:
    "penalised_system 1 10 [0, 1, 2] 2 [0, - 1 / 4, 0] [- 1, 3 / 2, 1] [0, - 1 / 4, 0]
        [- 2, 2, 2] [2, 1 / 2, 2]
        = Inr ([0, - 1 / 4, 0], b_hat, [0, - 1 / 4, 0], d_hat)"
    and b: "\<forall>j. j < length [- 1, 3 / 2, 1 :: real] \<longrightarrow>
         b_hat ! j = (if 1 \<le> j \<and> int j \<le> 2 - 1 \<and> [2, 1 / 2, 2 :: real] ! j < 1 * [0, 1, 2] ! j
                      then [- 1, 3 / 2, 1] ! j + 10 else [- 1, 3 / 2, 1] ! j)"
    and d: "\<forall>j. j < length [- 2, 2, 2 :: real] \<longrightarrow>
         d_hat ! j = (if 1 \<le> j \<and> int j \<le> 2 - 1 \<and> [2, 1 / 2, 2 :: real] ! j < 1 * [0, 1, 2] ! j
                      then [- 2, 2, 2] ! j + 10 * (1 * [0, 1, 2] ! j) else [- 2, 2, 2] ! j)"
    by (elim exE conjE) (rule that, assumption+)
  from b [rule_format, of 0] b [rule_format, of 1] b [rule_format, of 2]
  have "b_hat ! 0 = - 1" "b_hat ! 1 = 23 / 2" "b_hat ! 2 = 1" by simp_all
  moreover from d [rule_format, of 0] d [rule_format, of 1] d [rule_format, of 2]
  have "d_hat ! 0 = - 2" "d_hat ! 1 = 12" "d_hat ! 2 = 2" by simp_all
  ultimately show ?thesis using sys h by blast
qed

text \<open>
  A pass of the penalty loop solves the system of these copies, and at its end the
  copies \<open>a_hat\<close>, \<open>b_hat\<close> and \<open>c_hat\<close> are as they were handed over; \<open>d_hat\<close> holds what
  the solver left in it.
\<close>

lemma penalty_iteration_system:
  assumes "penalty_iteration R rho S j_max a b c d v_new = Inr (err, y)"
  shows "\<exists>b_hat d_hat d_hat'.
           penalised_system R rho S j_max a b c d v_new = Inr (a, b_hat, c, d_hat) \<and>
           thomas_solve a b_hat c d_hat = Inr (d_hat', y) \<and>
           iteration_copies R rho S j_max a b c d v_new = Inr (a, b_hat, c, d_hat')"
proof -
  from assms obtain a_hat b_hat c_hat d_hat d_hat' where
    sys: "penalised_system R rho S j_max a b c d v_new = Inr (a_hat, b_hat, c_hat, d_hat)"
    and sol: "thomas_solve a_hat b_hat c_hat d_hat = Inr (d_hat', y)"
    by (auto simp: penalty_iteration_def split: sum.splits prod.splits if_splits)
  from sys have "a_hat = a" "c_hat = c"
    by (auto simp: penalised_system_def Let_def split: if_splits prod.splits)
  with sys sol show ?thesis
    by (auto simp: iteration_copies_def)
qed


subsection \<open>The convergence measure\<close>

text \<open>The value of \<^verbatim>\<open>error\<close>: the sum over the indices \<open>0 \<le> j < j_max\<close>.\<close>

lemma squared_error_sum:
  "squared_error v_new y j_max j err =
     err + (\<Sum>k = j..<nat j_max. (v_new ! k - y ! k)\<^sup>2)"
proof (induction v_new y j_max j err rule: squared_error.induct)
  case (1 v_new y j_max j err)
  show ?case
  proof (cases "int j < j_max")
    case True
    then have "j < nat j_max" by simp
    then have "(\<Sum>k = j..<nat j_max. (v_new ! k - y ! k)\<^sup>2) =
        (v_new ! j - y ! j)\<^sup>2 + (\<Sum>k = Suc j..<nat j_max. (v_new ! k - y ! k)\<^sup>2)"
      by (simp add: sum.atLeast_Suc_lessThan)
    then show ?thesis
      using True "1.IH" by (subst squared_error.simps) simp
  next
    case False
    then have "nat j_max \<le> j" by simp
    then show ?thesis using False by (subst squared_error.simps) simp
  qed
qed

lemma penalty_iteration_measure:
  assumes "penalty_iteration R rho S j_max a b c d v_new = Inr (err, y)"
  shows "err = (\<Sum>j = 0..<nat j_max. (v_new ! j - y ! j)\<^sup>2)"
  using assms
  by (auto simp: penalty_iteration_def squared_error_sum
           split: sum.splits prod.splits if_splits)

text \<open>
  Claim C2. The claim is that the measure of convergence is the sum of the squared
  differences over every index from \<open>0\<close> to \<open>j_max\<close>, and that the iteration has
  converged exactly when that sum is below \<open>tol\<^sup>2\<close>. The loop that computes the measure
  runs over \<open>j < j_max\<close> and leaves the last grid node out. With \<open>T = 1\<close>, \<open>F = 2\<close>,
  \<open>R = 1\<close>, \<open>r = kappa = mu = C = alpha = 0\<close>, \<open>X = beta = sigma = 1\<close>, \<open>i_max = j_max = 1\<close>,
  \<open>S_max = 1\<close>, \<open>rho = 1\<close> and \<open>tol = 1/2\<close>, the grid is \<open>(0, 1)\<close>, the final condition is
  \<open>(2, 2)\<close> and the first pass of the one time level solves to \<open>y = (2, 1)\<close>. The
  squared differences are \<open>0\<close> and \<open>1\<close>: the code's measure is \<open>0\<close> and the loop stops as
  converged, the sum over both nodes is \<open>1\<close>, not below \<open>tol\<^sup>2 = 1/4\<close>.
\<close>

theorem squared_error_omits_last_node:
  "grid 1 (1 / 1) = [0, 1] \<and> terminal_payoff 2 1 [0, 1] 1 = [2, 2] \<and>
   build_system 1 0 0 0 1 0 0 1 1 1 (1 / 1) [0, 1] 1 0 [2, 2]
     = Inr ([0, 0], [- 1, 1], [0, 0], [- 2, 1]) \<and>
   penalty_iteration 1 1 [0, 1] 1 [0, 0] [- 1, 1] [0, 0] [- 2, 1] [2, 2] = Inr (0, [2, 1]) \<and>
   (\<Sum>j = 0..<nat 1 + 1. ([2, 2] ! j - [2, 1 :: real] ! j)\<^sup>2) = 1 \<and>
   \<not> (1 :: real) < (1 / 2)\<^sup>2 \<and>
   penalty_loop 1 1 (1 / 2) [0, 1] 1 [0, 0] [- 1, 1] [0, 0] [- 2, 1] (nat 5) [2, 2] = Inr [2, 1]"
proof -
  have g: "grid 1 (1 / 1) = [0, 1]" "terminal_payoff 2 1 [0, 1] 1 = [2, 2]"
    by (simp_all add: grid_def terminal_payoff_def numeral_2_eq_2)
  have sys: "build_system 1 0 0 0 1 0 0 1 1 1 (1 / 1) [0, 1] 1 0 [2, 2]
      = Inr ([0, 0], [- 1, 1], [0, 0], [- 2, 1])"
    by (simp add: build_system_def theta_def interior_rows.simps Let_def numeral_2_eq_2)
  have it: "penalty_iteration 1 1 [0, 1] 1 [0, 0] [- 1, 1] [0, 0] [- 2, 1] [2, 2]
      = Inr (0, [2, 1])"
    by (simp add: penalty_iteration_def penalised_system_def apply_penalty.simps
          thomas_solve_def eliminated_def forward_sweep.simps squared_error.simps Let_def
          numeral_2_eq_2)
  have full: "(\<Sum>j = 0..<nat 1 + 1. ([2, 2] ! j - [2, 1 :: real] ! j)\<^sup>2) = 1"
    by (simp add: numeral_2_eq_2)
  have tol: "\<not> (1 :: real) < (1 / 2)\<^sup>2" by (simp add: power2_eq_square)
  have lp: "penalty_loop 1 1 (1 / 2) [0, 1] 1 [0, 0] [- 1, 1] [0, 0] [- 2, 1] (nat 5) [2, 2]
      = Inr [2, 1]"
    by (simp add: eval_nat_numeral it)
  show ?thesis using g sys it full tol lp by blast
qed

subsection \<open>Failure to converge\<close>

lemma thomas_solve_errors: "thomas_solve a b_in c d = Inl e \<Longrightarrow> e = OutOfBounds"
  by (auto simp: thomas_solve_def Let_def split: if_splits prod.splits)

lemma penalty_iteration_errors:
  "penalty_iteration R rho S j_max a b c d v_new = Inl e \<Longrightarrow> e = OutOfBounds"
  by (auto simp: penalty_iteration_def penalised_system_def Let_def
           split: sum.splits prod.splits if_splits dest: thomas_solve_errors)

lemma penalty_loop_exhausted:
  "penalty_loop R rho tol S j_max a b c d k v_new = Inl ConvergenceFailure
     \<longleftrightarrow> unconverged R rho tol S j_max a b c d k v_new"
proof (induction k arbitrary: v_new)
  case 0
  show ?case by simp
next
  case (Suc k)
  show ?case
  proof (cases "penalty_iteration R rho S j_max a b c d v_new")
    case (Inl e)
    then have "e = OutOfBounds" by (rule penalty_iteration_errors)
    with Inl show ?thesis by simp
  next
    case (Inr p)
    obtain err y where p: "p = (err, y)" by (cases p)
    show ?thesis using Inr p Suc.IH [of y] by simp
  qed
qed

lemma time_loop_failure_persists:
  "time_loop R r kappa mu X C alpha beta sigma rho tol dS dt iter_max S j_max i_max s m = Inl e
   \<Longrightarrow> time_loop R r kappa mu X C alpha beta sigma rho tol dS dt iter_max S j_max i_max s (m + k)
         = Inl e"
  by (induction k) simp_all

lemma time_loop_layer_fails:
  assumes "time_loop R r kappa mu X C alpha beta sigma rho tol dS dt iter_max S j_max i_max s m
             = Inr (v_old, v_new)"
    and "time_layer R r kappa mu X C alpha beta sigma rho tol dS dt iter_max S j_max
           (i_max - 1 - int m) v_old v_new = Inl e"
    and "m < n"
  shows "time_loop R r kappa mu X C alpha beta sigma rho tol dS dt iter_max S j_max i_max s n
           = Inl e"
proof -
  have "time_loop R r kappa mu X C alpha beta sigma rho tol dS dt iter_max S j_max i_max s (Suc m)
          = Inl e"
    using assms(1,2) by simp
  from time_loop_failure_persists [OF this, of "n - Suc m"] show ?thesis
    using assms(3) by simp
qed

lemma crank_nicolson_layer_fails:
  assumes "0 \<le> j_max" "j_max < 2147483647"
    and "dS = S_max / real_of_int j_max" "dt = T / real_of_int i_max"
    and "S = grid j_max dS" "v0 = terminal_payoff F R S j_max"
    and "int m < i_max"
    and "time_loop R r kappa mu X C alpha beta sigma rho tol dS dt iter_max S j_max i_max (v0, v0) m
           = Inr (v_old, v_new)"
    and "time_layer R r kappa mu X C alpha beta sigma rho tol dS dt iter_max S j_max
           (i_max - 1 - int m) v_old v_new = Inl e"
  shows "crank_nicolson T F R r kappa mu S0 X C alpha beta sigma i_max j_max S_max rho tol iter_max
           = Inl e"
proof -
  have "m < nat i_max" using assms(7) by simp
  from time_loop_layer_fails [OF assms(8,9) this]
  show ?thesis
    using assms(1,2,7)
    by (simp add: crank_nicolson_def Let_def assms(3-6) [symmetric])
qed

lemma build_system_defined:
  assumes "0 \<le> j_max" "length v_old = nat j_max + 1" "length S = nat j_max + 1"
  shows "\<exists>sys. build_system R r kappa mu X C alpha beta sigma dS dt S j_max i v_old = Inr sys"
  using build_system_rows [OF assms, of R r kappa mu X C alpha beta sigma dS dt i] by blast

text \<open>
  Claim C9. Let the time levels above some level be solved, leaving the vectors
  \<open>v_old\<close> and \<open>v_new\<close>. If at this level the penalty iteration makes its \<open>iter_max\<close>
  passes and none has a squared error below \<open>tol\<^sup>2\<close>, then the level ends in the
  convergence failure, and so does the whole of \<open>crank_nicolson\<close>: it returns no
  value. In particular, with \<open>iter_max \<le> 0\<close> and at least one time level, the first
  level that is processed, \<open>i = i_max - 1\<close>, ends in the convergence failure.
\<close>

theorem convergence_failure_is_fatal:
  assumes "0 \<le> j_max" "j_max < 2147483647"
    and "dS = S_max / real_of_int j_max" "dt = T / real_of_int i_max"
    and "S = grid j_max dS" "v0 = terminal_payoff F R S j_max"
  shows "(\<forall>m v_old v_new a b c d.
            int m < i_max \<and>
            time_loop R r kappa mu X C alpha beta sigma rho tol dS dt iter_max S j_max i_max
              (v0, v0) m = Inr (v_old, v_new) \<and>
            build_system R r kappa mu X C alpha beta sigma dS dt S j_max (i_max - 1 - int m) v_old
              = Inr (a, b, c, d) \<and>
            unconverged R rho tol S j_max a b c d (nat iter_max) v_new
            \<longrightarrow>
            time_layer R r kappa mu X C alpha beta sigma rho tol dS dt iter_max S j_max
              (i_max - 1 - int m) v_old v_new = Inl ConvergenceFailure \<and>
            crank_nicolson T F R r kappa mu S0 X C alpha beta sigma i_max j_max S_max rho tol
              iter_max = Inl ConvergenceFailure) \<and>
         (iter_max \<le> 0 \<and> 0 < i_max \<longrightarrow>
            time_layer R r kappa mu X C alpha beta sigma rho tol dS dt iter_max S j_max
              (i_max - 1) v0 v0 = Inl ConvergenceFailure \<and>
            crank_nicolson T F R r kappa mu S0 X C alpha beta sigma i_max j_max S_max rho tol
              iter_max = Inl ConvergenceFailure)"
proof (intro conjI allI impI)
  fix m v_old v_new a b c d
  assume h: "int m < i_max \<and>
      time_loop R r kappa mu X C alpha beta sigma rho tol dS dt iter_max S j_max i_max
        (v0, v0) m = Inr (v_old, v_new) \<and>
      build_system R r kappa mu X C alpha beta sigma dS dt S j_max (i_max - 1 - int m) v_old
        = Inr (a, b, c, d) \<and>
      unconverged R rho tol S j_max a b c d (nat iter_max) v_new"
  then have "penalty_loop R rho tol S j_max a b c d (nat iter_max) v_new = Inl ConvergenceFailure"
    by (simp add: penalty_loop_exhausted)
  with h show layer: "time_layer R r kappa mu X C alpha beta sigma rho tol dS dt iter_max S j_max
      (i_max - 1 - int m) v_old v_new = Inl ConvergenceFailure"
    by (simp add: time_layer_def)
  from h have "int m < i_max"
    "time_loop R r kappa mu X C alpha beta sigma rho tol dS dt iter_max S j_max i_max
        (v0, v0) m = Inr (v_old, v_new)"
    by simp_all
  from crank_nicolson_layer_fails [OF assms this layer]
  show "crank_nicolson T F R r kappa mu S0 X C alpha beta sigma i_max j_max S_max rho tol
      iter_max = Inl ConvergenceFailure" .
next
  assume h: "iter_max \<le> 0 \<and> 0 < i_max"
  have len: "length v0 = nat j_max + 1" "length S = nat j_max + 1"
    using assms(1) by (simp_all add: assms(5,6) grid_def terminal_payoff_def nat_add_distrib)
  from build_system_defined [OF assms(1) len, of R r kappa mu X C alpha beta sigma dS dt "i_max - 1"]
  obtain sys where "build_system R r kappa mu X C alpha beta sigma dS dt S j_max (i_max - 1) v0
      = Inr sys"
    by blast
  then have layer: "time_layer R r kappa mu X C alpha beta sigma rho tol dS dt iter_max S j_max
      (i_max - 1 - int 0) v0 v0 = Inl ConvergenceFailure"
    using h by (cases sys) (simp add: time_layer_def)
  then show "time_layer R r kappa mu X C alpha beta sigma rho tol dS dt iter_max S j_max
      (i_max - 1) v0 v0 = Inl ConvergenceFailure"
    by simp
  have "int 0 < i_max"
    "time_loop R r kappa mu X C alpha beta sigma rho tol dS dt iter_max S j_max i_max
        (v0, v0) 0 = Inr (v0, v0)"
    using h by simp_all
  from crank_nicolson_layer_fails [OF assms this layer]
  show "crank_nicolson T F R r kappa mu S0 X C alpha beta sigma i_max j_max S_max rho tol
      iter_max = Inl ConvergenceFailure" .
qed

theorem convergence_failure_is_fatal_witness:
  "unconverged 1 1 (1 / 2) [0, 1] 1 [0, 0] [- 1, 1] [0, 0] [- 3, 1] (nat 1) [2, 2] \<and>
   crank_nicolson 1 2 1 0 0 0 (1 / 2) 1 1 0 1 1 1 1 1 1 (1 / 2) 1 = Inl ConvergenceFailure \<and>
   crank_nicolson 1 2 1 0 0 0 (1 / 2) 1 0 0 1 1 1 1 1 1 (1 / 2) 0 = Inl ConvergenceFailure"
proof -
  have h: "(0 :: int) \<le> 1" "(1 :: int) < 2147483647"
    "(1 / 1 :: real) = 1 / real_of_int 1" "(1 / 1 :: real) = 1 / real_of_int 1"
    "[0, 1] = grid 1 (1 / 1)" "[2, 2] = terminal_payoff 2 1 [0, 1] 1"
    by (simp_all add: grid_def terminal_payoff_def numeral_2_eq_2)
  have sys: "build_system 1 0 0 0 1 1 0 1 1 (1 / 1) (1 / 1) [0, 1] 1 (1 - 1 - int 0) [2, 2]
      = Inr ([0, 0], [- 1, 1], [0, 0], [- 3, 1])"
    by (simp add: build_system_def theta_def interior_rows.simps Let_def numeral_2_eq_2)
  have it: "penalty_iteration 1 1 [0, 1] 1 [0, 0] [- 1, 1] [0, 0] [- 3, 1] [2, 2]
      = Inr (1, [3, 1])"
    by (simp add: penalty_iteration_def penalised_system_def apply_penalty.simps
          thomas_solve_def eliminated_def forward_sweep.simps squared_error.simps Let_def
          numeral_2_eq_2)
  have un: "unconverged 1 1 (1 / 2) [0, 1] 1 [0, 0] [- 1, 1] [0, 0] [- 3, 1] (nat 1) [2, 2]"
    by (simp add: it power2_eq_square)
  have start: "int 0 < 1"
    "time_loop 1 0 0 0 1 1 0 1 1 1 (1 / 2) (1 / 1) (1 / 1) 1 [0, 1] 1 1 ([2, 2], [2, 2]) 0
       = Inr ([2, 2], [2, 2])"
    by simp_all
  note general = convergence_failure_is_fatal [where r = 0
      and kappa = 0 and mu = 0 and X = 1 and C = 1 and alpha = 0 and beta = 1 and sigma = 1
      and rho = 1 and tol = "1 / 2" and iter_max = 1, OF h, of "1 / 2",
      THEN conjunct1, rule_format, where m = 0 and v_old = "[2, 2]" and v_new = "[2, 2]"
      and a = "[0, 0]" and b = "[- 1, 1]" and c = "[0, 0]" and d = "[- 3, 1]"]
  from general start sys un
  have a: "crank_nicolson 1 2 1 0 0 0 (1 / 2) 1 1 0 1 1 1 1 1 1 (1 / 2) 1
      = Inl ConvergenceFailure"
    by simp
  note degenerate = convergence_failure_is_fatal [where r = 0
      and kappa = 0 and mu = 0 and X = 1 and C = 0 and alpha = 0 and beta = 1 and sigma = 1
      and rho = 1 and tol = "1 / 2" and iter_max = 0, OF h, of "1 / 2", THEN conjunct2]
  from degenerate
  have b: "crank_nicolson 1 2 1 0 0 0 (1 / 2) 1 0 0 1 1 1 1 1 1 (1 / 2) 0
      = Inl ConvergenceFailure"
    by simp
  show ?thesis using un a b by blast
qed

end
